theory Spec2Isabelle
  imports Main "HOL-Library.Product_Lexorder" "HOL-Library.Sublist"
begin

section \<open>Python values and exceptions\<close>

text \<open>
  The two modules verified here are \<^verbatim>\<open>anchore_engine/db/entities/upgrade.py\<close> (the
  database upgrade runner) and \<^verbatim>\<open>anchore_engine/apis/authorization.py\<close> (the
  \<^verbatim>\<open>requires\<close> decorator). Values stored in the version dictionaries are strings or
  \<^verbatim>\<open>None\<close>.
\<close>

datatype pyval = PyNone | PyStr string

text \<open>Python truthiness: \<^verbatim>\<open>None\<close> and the empty string are falsy.\<close>

fun truthy :: "pyval \<Rightarrow> bool" where
  "truthy PyNone = False"
| "truthy (PyStr s) = (s \<noteq> [])"

text \<open>
  An exception is its class and its message (\<^verbatim>\<open>str(err)\<close>). \<^verbatim>\<open>KeyboardInterrupt\<close>,
  \<^verbatim>\<open>SystemExit\<close> and \<^verbatim>\<open>GeneratorExit\<close> derive from \<^verbatim>\<open>BaseException\<close> only; every other
  class derives from \<^verbatim>\<open>Exception\<close>. \<^verbatim>\<open>ProgrammingError\<close> and \<^verbatim>\<open>OperationalError\<close> stand for
  the database driver's errors, \<^verbatim>\<open>UnauthorizedException\<close> for the one of the Yosai library.
\<close>

datatype exn_class =
    Exception | TableNotFoundError | ValueError | AttributeError | KeyError | TypeError
  | ProgrammingError | OperationalError
  | IndexError | UnauthorizedError | UnauthenticatedError | UnauthorizedException
  | KeyboardInterrupt | SystemExit | GeneratorExit

datatype exn = Exn (exn_cls: exn_class) (exn_msg: string)

fun isinstance_Exception :: "exn \<Rightarrow> bool" where
  "isinstance_Exception (Exn c m) = (c \<noteq> KeyboardInterrupt \<and> c \<noteq> SystemExit \<and> c \<noteq> GeneratorExit)"

text \<open>The text Python's \<^verbatim>\<open>str\<close> gives for a value, as used in the messages.\<close>

fun py_str :: "pyval \<Rightarrow> string" where
  "py_str PyNone = ''None''"
| "py_str (PyStr s) = s"

section \<open>\<^verbatim>\<open>distutils.version.StrictVersion\<close>\<close>

text \<open>
  \<^verbatim>\<open>do_upgrade\<close> compares versions with \<^verbatim>\<open>StrictVersion\<close> of the Python standard library.
  Its parser accepts \<^verbatim>\<open>^(\d+)\.(\d+)(\.(\d+))?([ab](\d+))?$\<close>: two or three dotted numbers
  and an optional pre-release tag; \<^verbatim>\<open>$\<close> also matches before one final newline. A missing
  third number is 0. The constructor parses only a truthy argument: \<^verbatim>\<open>StrictVersion(None)\<close>
  and \<^verbatim>\<open>StrictVersion('')\<close> give an object with no \<^verbatim>\<open>version\<close> attribute, and comparing
  such an object raises \<^verbatim>\<open>AttributeError\<close>.
\<close>

datatype strict_version =
  SV (sv_major: nat) (sv_minor: nat) (sv_patch: nat) (sv_prerelease: "(char \<times> nat) option")

definition is_digit :: "char \<Rightarrow> bool" where
  "is_digit c = (c \<in> set ''0123456789'')"

definition digit_val :: "char \<Rightarrow> nat" where
  "digit_val c = of_char c - 48"

definition atoi :: "string \<Rightarrow> nat" where
  "atoi ds = foldl (\<lambda>n c. 10 * n + digit_val c) 0 ds"

text \<open>\<^verbatim>\<open>(\d+)\<close> at the head of a string: the digits and the rest, or no match.\<close>

definition match_number :: "string \<Rightarrow> (nat \<times> string) option" where
  "match_number s =
     (let ds = takeWhile is_digit s
      in if ds = [] then None else Some (atoi ds, dropWhile is_digit s))"

text \<open>\<^verbatim>\<open>(\.(\d+))?\<close>: the optional third number.\<close>

definition match_patch :: "string \<Rightarrow> nat \<times> string" where
  "match_patch s =
     (case s of
        [] \<Rightarrow> (0, s)
      | c # r \<Rightarrow>
          (if c = CHR ''.'' then
             (case match_number r of None \<Rightarrow> (0, s) | Some (n, r') \<Rightarrow> (n, r'))
           else (0, s)))"

text \<open>\<^verbatim>\<open>([ab](\d+))?\<close>: the optional pre-release tag.\<close>

definition match_prerelease :: "string \<Rightarrow> (char \<times> nat) option \<times> string" where
  "match_prerelease s =
     (case s of
        [] \<Rightarrow> (None, s)
      | c # r \<Rightarrow>
          (if c = CHR ''a'' \<or> c = CHR ''b'' then
             (case match_number r of None \<Rightarrow> (None, s) | Some (n, r') \<Rightarrow> (Some (c, n), r'))
           else (None, s)))"

definition sv_parse :: "string \<Rightarrow> strict_version option" where
  "sv_parse s =
     (case match_number s of
        None \<Rightarrow> None
      | Some (major, r1) \<Rightarrow>
          (case r1 of
             [] \<Rightarrow> None
           | c # r1' \<Rightarrow>
               (if c \<noteq> CHR ''.'' then None
                else
                  (case match_number r1' of
                     None \<Rightarrow> None
                   | Some (minor, r2) \<Rightarrow>
                       (let (patch, r3) = match_patch r2;
                            (pre, r4) = match_prerelease r3
                        in if r4 = [] \<or> r4 = [CHR 0x0A]
                           then Some (SV major minor patch pre) else None)))))"

text \<open>
  The constructor: \<open>Inr None\<close> is the object built without parsing, \<open>Inl\<close> the
  \<^verbatim>\<open>ValueError\<close> of a string the pattern rejects.
\<close>

definition StrictVersion :: "pyval \<Rightarrow> exn + strict_version option" where
  "StrictVersion v =
     (if \<not> truthy v then Inr None
      else
        (case sv_parse (py_str v) of
           None \<Rightarrow> Inl (Exn ValueError (''invalid version number '' @ [CHR 0x27] @ py_str v @ [CHR 0x27]))
         | Some sv \<Rightarrow> Inr (Some sv)))"

text \<open>\<^verbatim>\<open>cmp\<close> on numbers and on the tuples the versions hold.\<close>

definition cmp_nat :: "nat \<Rightarrow> nat \<Rightarrow> int" where
  "cmp_nat a b = (if a < b then -1 else if a = b then 0 else 1)"

definition cmp_version :: "strict_version \<Rightarrow> strict_version \<Rightarrow> int" where
  "cmp_version a b =
     (if cmp_nat (sv_major a) (sv_major b) \<noteq> 0 then cmp_nat (sv_major a) (sv_major b)
      else if cmp_nat (sv_minor a) (sv_minor b) \<noteq> 0 then cmp_nat (sv_minor a) (sv_minor b)
      else cmp_nat (sv_patch a) (sv_patch b))"

definition cmp_prerelease :: "char \<times> nat \<Rightarrow> char \<times> nat \<Rightarrow> int" where
  "cmp_prerelease p q =
     (if cmp_nat (of_char (fst p)) (of_char (fst q)) \<noteq> 0
      then cmp_nat (of_char (fst p)) (of_char (fst q))
      else cmp_nat (snd p) (snd q))"

text \<open>\<^verbatim>\<open>StrictVersion.__cmp__\<close>: the numbers first, then the four pre-release cases.\<close>

definition sv_cmp :: "strict_version \<Rightarrow> strict_version \<Rightarrow> int" where
  "sv_cmp a b =
     (let compare = cmp_version a b
      in if compare = 0 then
           (case (sv_prerelease a, sv_prerelease b) of
              (None, None) \<Rightarrow> 0
            | (Some p, None) \<Rightarrow> -1
            | (None, Some q) \<Rightarrow> 1
            | (Some p, Some q) \<Rightarrow> cmp_prerelease p q)
         else compare)"

text \<open>
  \<^verbatim>\<open>StrictVersion(x) OP StrictVersion(y)\<close>: the left object is built first, then the
  right one, then they are compared.
\<close>

definition compare_versions :: "pyval \<Rightarrow> pyval \<Rightarrow> exn + int" where
  "compare_versions x y =
     (case StrictVersion x of
        Inl e \<Rightarrow> Inl e
      | Inr a \<Rightarrow>
          (case StrictVersion y of
             Inl e \<Rightarrow> Inl e
           | Inr b \<Rightarrow>
               (case (a, b) of
                  (Some va, Some vb) \<Rightarrow> Inr (sv_cmp va vb)
                | _ \<Rightarrow> Inl (Exn AttributeError
                          (''StrictVersion instance has no attribute '' @ [CHR 0x27] @ ''version'' @ [CHR 0x27])))))"

section \<open>The upgrade runner: state\<close>

text \<open>
  The version dictionaries (\<^verbatim>\<open>code_versions\<close>, \<^verbatim>\<open>db_versions\<close>) map keys to values.
\<close>

type_synonym versions = "string \<rightharpoonup> pyval"

text \<open>
  What a run does to the outside is recorded as a trace: taking and releasing the advisory
  lock, calling a migration function (by its \<^verbatim>\<open>__name__\<close>), and the call
  \<^verbatim>\<open>db_anchore.add(service_version, db_version, code_versions)\<close>. Printing is left out.
\<close>

datatype event =
    LockAcquire nat nat
  | LockRelease nat nat
  | Call string
  | AnchoreAdd pyval pyval versions

text \<open>
  The version table of the database: missing, unreadable for another reason (with the
  driver's message), or present with the record \<^verbatim>\<open>db_anchore.get\<close> returns (the empty
  dictionary when nothing was ever stored).
\<close>

datatype anchore_store = NoTable | Unreadable string | Records versions

text \<open>
  The state a run works on: the version table, the rest of the database (the schema and
  data the migration functions alter, of any type \<open>'w\<close>) and the trace.
\<close>

record 'w world =
  anchore :: anchore_store
  schema :: 'w
  trace :: "event list"

text \<open>
  A migration function takes no argument and returns nothing of use; it works on the
  database, the version table included, and may raise, possibly after part of its work is
  done.
\<close>

type_synonym 'w database = "anchore_store \<times> 'w"

record 'w upgrade_fn =
  fn_name :: string
  fn_body :: "'w database \<Rightarrow> exn option \<times> 'w database"

definition database :: "'w world \<Rightarrow> 'w database" where
  "database w = (anchore w, schema w)"

definition with_database :: "'w database \<Rightarrow> 'w world \<Rightarrow> 'w world" where
  "with_database d w = w\<lparr>anchore := fst d, schema := snd d\<rparr>"

type_synonym 'w upgrade_step = "(string \<times> string) \<times> 'w upgrade_fn list"

text \<open>
  What the module reads from its surroundings: its globals and \<^verbatim>\<open>anchore_engine.version\<close>.
  The global \<^verbatim>\<open>log\<close> is set by the imports at the top of the module: it is the module
  \<^verbatim>\<open>twisted.python.log\<close> when \<^verbatim>\<open>anchore_engine.subsys.logger\<close> and Twisted can be imported
  (\<open>twisted_log\<close>), and a logger of the standard library otherwise.
\<close>

record 'w env =
  upgrade_enabled :: bool
  upgrade_functions :: "'w upgrade_step list"
  version_version :: pyval
  version_db_version :: pyval
  twisted_log :: bool

definition upgrade_lock_namespace :: nat where
  "upgrade_lock_namespace = 1"

definition my_module_upgrade_id :: nat where
  "my_module_upgrade_id = 1"

definition emit :: "event \<Rightarrow> 'w world \<Rightarrow> 'w world" where
  "emit ev w = w\<lparr>trace := trace w @ [ev]\<rparr>"

section \<open>Collaborators of the upgrade runner\<close>

text \<open>
  Modelled from the spec: \<^verbatim>\<open>db_anchore.get\<close>, which \<^verbatim>\<open>anchore_engine.db\<close> defines
  (``\<^verbatim>\<open>getRunningVersions() -> VersionPair|absent\<close> (fails with a distinct error kind if
  the version table itself is missing)''). It returns the stored record, and raises the
  driver's error when the table is missing or cannot be read.
\<close>

definition db_anchore_get :: "'w world \<Rightarrow> exn + versions" where
  "db_anchore_get w =
     (case anchore w of
        NoTable \<Rightarrow> Inl (Exn ProgrammingError ''relation anchore does not exist'')
      | Unreadable m \<Rightarrow> Inl (Exn OperationalError m)
      | Records d \<Rightarrow> Inr d)"

text \<open>
  Modelled from the spec: \<^verbatim>\<open>is_table_not_found\<close> of
  \<^verbatim>\<open>anchore_engine.db.entities.exceptions\<close>, the module that defines it: it
  recognises the error of a missing table.
\<close>

definition is_table_not_found :: "exn \<Rightarrow> bool" where
  "is_table_not_found e = (exn_cls e = ProgrammingError)"

text \<open>
  Modelled from the spec: \<^verbatim>\<open>db_anchore.add\<close>, which \<^verbatim>\<open>anchore_engine.db\<close> defines
  (``\<^verbatim>\<open>recordVersions(serviceVersion, dbVersion, metadata)\<close> -- single atomic upsert'').
  It replaces the stored record by the dictionary it is given and raises the driver's
  error when the table is missing or cannot be read.
\<close>

definition db_anchore_add :: "pyval \<Rightarrow> pyval \<Rightarrow> versions \<Rightarrow> 'w world \<Rightarrow> exn option \<times> 'w world" where
  "db_anchore_add service_version db_version rec w =
     (let w1 = emit (AnchoreAdd service_version db_version rec) w
      in case anchore w of
           NoTable \<Rightarrow> (Some (Exn ProgrammingError ''relation anchore does not exist''), w1)
         | Unreadable m \<Rightarrow> (Some (Exn OperationalError m), w1)
         | Records d \<Rightarrow> (None, w1\<lparr>anchore := Records rec\<rparr>))"

text \<open>Subscripting a dictionary: \<^verbatim>\<open>d[k]\<close> raises \<^verbatim>\<open>KeyError\<close> on a missing key.\<close>

definition getitem :: "versions \<Rightarrow> string \<Rightarrow> exn + pyval" where
  "getitem d k =
     (case d k of None \<Rightarrow> Inl (Exn KeyError ([CHR 0x27] @ k @ [CHR 0x27])) | Some v \<Rightarrow> Inr v)"

text \<open>\<^verbatim>\<open>d.get(k, None)\<close>.\<close>

definition dict_get :: "versions \<Rightarrow> string \<Rightarrow> pyval" where
  "dict_get d k = (case d k of None \<Rightarrow> PyNone | Some v \<Rightarrow> v)"

section \<open>The upgrade runner: operations\<close>

text \<open>
  \<^verbatim>\<open>get_versions\<close>: the code's versions come from \<^verbatim>\<open>anchore_engine.version\<close>, the
  running ones from the database. A failing read is raised again as
  \<^verbatim>\<open>TableNotFoundError\<close> when the table is missing, as a plain \<^verbatim>\<open>Exception\<close> otherwise.
\<close>

definition get_versions :: "'w env \<Rightarrow> 'w world \<Rightarrow> exn + (versions \<times> versions)" where
  "get_versions env w =
     (let code_versions = [''service_version'' \<mapsto> version_version env,
                           ''db_version'' \<mapsto> version_db_version env]
      in case db_anchore_get w of
           Inl err \<Rightarrow>
             (if is_table_not_found err
              then Inl (Exn TableNotFoundError ''anchore table not found'')
              else Inl (Exn Exception
                (''Cannot find existing/populated anchore DB tables in connected database - has anchore-engine initialized this DB?''
                 @ [CHR 0x0A, CHR 0x0A] @ ''DB - exception: '' @ exn_msg err)))
         | Inr db_versions \<Rightarrow> Inr (code_versions, db_versions))"

text \<open>\<^verbatim>\<open>do_upgrade_success\<close>: the one write of the version record; it returns \<^verbatim>\<open>True\<close>.\<close>

definition do_upgrade_success :: "versions \<Rightarrow> versions \<Rightarrow> 'w world \<Rightarrow> (exn + bool) \<times> 'w world" where
  "do_upgrade_success db_versions code_versions w =
     (case getitem code_versions ''service_version'' of
        Inl e \<Rightarrow> (Inl e, w)
      | Inr sv \<Rightarrow>
          (case getitem code_versions ''db_version'' of
             Inl e \<Rightarrow> (Inl e, w)
           | Inr dv \<Rightarrow>
               (case db_anchore_add sv dv code_versions w of
                  (Some e, w1) \<Rightarrow> (Inl e, w1)
                | (None, w1) \<Rightarrow> (Inr True, w1))))"

text \<open>
  \<^verbatim>\<open>log.exception(...)\<close>, the first statement of the handler in \<^verbatim>\<open>do_upgrade\<close>. A logger of
  the standard library has the method; the module \<^verbatim>\<open>twisted.python.log\<close> has \<^verbatim>\<open>msg\<close> and
  \<^verbatim>\<open>err\<close> but no \<^verbatim>\<open>exception\<close>, so that the attribute lookup raises.
\<close>

definition log_exception :: "bool \<Rightarrow> exn option" where
  "log_exception twisted =
     (if twisted
      then Some (Exn AttributeError ([CHR 0x27] @ ''module'' @ [CHR 0x27] @ '' object has no attribute ''
                                     @ [CHR 0x27] @ ''exception'' @ [CHR 0x27]))
      else None)"

text \<open>
  The inner loop of \<^verbatim>\<open>do_upgrade\<close>: the functions of one step, in order. The handler
  \<^verbatim>\<open>except Exception as e\<close> logs and raises \<open>e\<close> again; when the logging itself raises,
  that exception takes the place of \<open>e\<close>. An exception that is no \<^verbatim>\<open>Exception\<close> passes
  the handler by. In every case the functions after the failing one are not called.
\<close>

fun run_functions :: "bool \<Rightarrow> 'w upgrade_fn list \<Rightarrow> 'w world \<Rightarrow> exn option \<times> 'w world" where
  "run_functions twisted [] w = (None, w)"
| "run_functions twisted (f # fs) w =
     (let w1 = emit (Call (fn_name f)) w;
          (r, d) = fn_body f (database w1);
          w2 = with_database d w1
      in case r of
           None \<Rightarrow> run_functions twisted fs w2
         | Some e \<Rightarrow>
             (if isinstance_Exception e then
                (case log_exception twisted of
                   Some e' \<Rightarrow> (Some e', w2)
                 | None \<Rightarrow> (Some e, w2))
              else (Some e, w2)))"

text \<open>
  The outer loop of \<^verbatim>\<open>do_upgrade\<close> over the step table, with the cursor
  \<^verbatim>\<open>db_current\<close>. It returns the cursor it ends with.
\<close>

fun upgrade_loop ::
  "bool \<Rightarrow> pyval \<Rightarrow> 'w upgrade_step list \<Rightarrow> pyval \<Rightarrow> 'w world \<Rightarrow> (exn + pyval) \<times> 'w world" where
  "upgrade_loop twisted db_target [] db_current w = (Inr db_current, w)"
| "upgrade_loop twisted db_target (((db_from, db_to), functions_to_run) # rest) db_current w =
     (case compare_versions db_current db_target of
        Inl e \<Rightarrow> (Inl e, w)
      | Inr c1 \<Rightarrow>
          (if c1 \<ge> 0 then (Inr db_current, w)
           else
             (case compare_versions (PyStr db_to) db_current of
                Inl e \<Rightarrow> (Inl e, w)
              | Inr c2 \<Rightarrow>
                  (if c2 \<le> 0 then upgrade_loop twisted db_target rest db_current w
                   else
                     (case run_functions twisted functions_to_run w of
                        (Some e, w1) \<Rightarrow> (Inl e, w1)
                      | (None, w1) \<Rightarrow> upgrade_loop twisted db_target rest (PyStr db_to) w1)))))"

text \<open>\<^verbatim>\<open>do_upgrade(inplace, incode)\<close>.\<close>

definition do_upgrade :: "'w env \<Rightarrow> versions \<Rightarrow> versions \<Rightarrow> 'w world \<Rightarrow> (exn + bool) \<times> 'w world" where
  "do_upgrade env inplace incode w =
     (case getitem inplace ''db_version'' of
        Inl e \<Rightarrow> (Inl e, w)
      | Inr db_current \<Rightarrow>
     (case StrictVersion db_current of
        Inl e \<Rightarrow> (Inl e, w)
      | Inr _ \<Rightarrow>
     (case getitem incode ''db_version'' of
        Inl e \<Rightarrow> (Inl e, w)
      | Inr db_target \<Rightarrow>
     (case compare_versions db_current db_target of
        Inl e \<Rightarrow> (Inl e, w)
      | Inr c \<Rightarrow>
          (if c > 0 then (Inl (Exn Exception ''DB downgrade not supported''), w)
           else
             (case (if db_current \<noteq> db_target \<and> upgrade_enabled env
                    then upgrade_loop (twisted_log env) db_target (upgrade_functions env) db_current w
                    else (Inr db_current, w)) of
                (Inl e, w1) \<Rightarrow> (Inl e, w1)
              | (Inr _, w1) \<Rightarrow>
                  (case getitem inplace ''service_version'' of
                     Inl e \<Rightarrow> (Inl e, w1)
                   | Inr _ \<Rightarrow>
                       (case getitem incode ''service_version'' of
                          Inl e \<Rightarrow> (Inl e, w1)
                        | Inr _ \<Rightarrow> (Inr True, w1)))))))))"

text \<open>
  The body of \<^verbatim>\<open>run_upgrade\<close> inside the \<^verbatim>\<open>with\<close> block. The result \<open>Inr None\<close> is
  Python's \<^verbatim>\<open>None\<close>, which a function returns when it ends without \<^verbatim>\<open>return\<close>.
\<close>

definition run_upgrade_body :: "'w env \<Rightarrow> versions \<times> versions \<Rightarrow> 'w world \<Rightarrow> (exn + bool option) \<times> 'w world" where
  "run_upgrade_body env ctx w =
     (let code_versions = fst ctx;
          db_versions = snd ctx;
          code_db_version = dict_get (fst ctx) ''db_version'';
          running_db_version = dict_get (snd ctx) ''db_version''
      in if \<not> truthy code_db_version then
           (Inl (Exn Exception (''cannot code version (code_db_version='' @ py_str code_db_version
                   @ '' running_db_version='' @ py_str running_db_version @ '')'')), w)
         else if truthy code_db_version \<and> running_db_version = PyNone then (Inr None, w)
         else if code_db_version = running_db_version then (Inr None, w)
         else
           (case do_upgrade env db_versions code_versions w of
              (Inl err, w1) \<Rightarrow> (Inl err, w1)
            | (Inr rc, w1) \<Rightarrow>
                (if rc then
                   (case do_upgrade_success db_versions code_versions w1 of
                      (Inl err, w2) \<Rightarrow> (Inl err, w2)
                    | (Inr rc', w2) \<Rightarrow> (Inr (Some rc'), w2))
                 else
                   (Inl (Exn Exception ''Upgrade routine from module returned false, please check your DB/environment and try again''), w1))))"

text \<open>
  \<^verbatim>\<open>run_upgrade\<close> with \<^verbatim>\<open>upgrade_context\<close> written out: the lock is taken, the versions are
  read under the lock, the body runs, and the lock is released however the block ends. One
  process is modelled, so that the lock is always granted.
\<close>

definition run_upgrade :: "'w env \<Rightarrow> 'w world \<Rightarrow> (exn + bool option) \<times> 'w world" where
  "run_upgrade env w =
     (let w0 = emit (LockAcquire upgrade_lock_namespace my_module_upgrade_id) w
      in case get_versions env w0 of
           Inl e \<Rightarrow> (Inl e, emit (LockRelease upgrade_lock_namespace my_module_upgrade_id) w0)
         | Inr ctx \<Rightarrow>
             (case run_upgrade_body env ctx w0 of
                (r, w1) \<Rightarrow> (r, emit (LockRelease upgrade_lock_namespace my_module_upgrade_id) w1)))"

section \<open>The authorization handler: data\<close>

text \<open>
  \<^verbatim>\<open>IdentityContext\<close>, as \<^verbatim>\<open>authenticate\<close> builds it, and the part of the request the
  handler reads: \<^verbatim>\<open>request.authorization\<close>, the user name and password when present.
\<close>

record identity_context =
  username :: pyval
  user_account :: pyval
  user_account_type :: pyval

record request =
  authorization :: "(string \<times> string) option"

text \<open>
  The state a request is served in: the identity that \<^verbatim>\<open>ApiRequestContextProxy\<close> holds and
  everything else (the Yosai subject, the database, whatever the endpoint works on).
\<close>

record 'a api_state =
  request_identity :: "identity_context option"
  app :: 'a

text \<open>
  The values a permission is made of. \<^verbatim>\<open>LazyBoundValue\<close> keeps its value,
  \<^verbatim>\<open>FunctionInjectedValue\<close> calls its loader when bound (\<^verbatim>\<open>RequestingAccountValue\<close> is the
  one whose loader is \<^verbatim>\<open>ApiRequestContextProxy.namespace\<close>), \<^verbatim>\<open>ParameterBoundValue\<close> takes
  the parameter of its name from the keyword arguments. Each object carries its
  \<^verbatim>\<open>_value\<close>. A field of a \<^verbatim>\<open>Permission\<close> is such an object, or a plain string or \<^verbatim>\<open>None\<close>.
  Two fields never share an object here.
\<close>

datatype 's lazy_value =
    LazyBoundValue pyval
  | FunctionInjectedValue "'s \<Rightarrow> exn + pyval" pyval
  | ParameterBoundValue string pyval

datatype 's perm_field = Plain pyval | Lazy "'s lazy_value"

datatype 's permission =
  Permission (perm_domain: "'s perm_field") (perm_action: "'s perm_field") (perm_target: "'s perm_field")

text \<open>The keyword arguments of a call, as the pairs of names and values passed.\<close>

type_synonym kwargs = "(string \<times> pyval) list"

text \<open>
  What the handler calls and other modules define: the Yosai context and
  subject, the identity provider and \<^verbatim>\<open>make_response_error\<close>. They are parameters. The
  calls that may raise return the exception; they work on the \<^verbatim>\<open>app\<close> part of the state.
\<close>

record ('a, 'b) collaborators =
  yosai_context_enter :: "'a \<Rightarrow> exn option \<times> 'a"
  yosai_context_exit :: "'a \<Rightarrow> 'a"
  get_current_subject :: "'a \<Rightarrow> exn option \<times> 'a"
  subject_login :: "string \<Rightarrow> string \<Rightarrow> 'a \<Rightarrow> exn option \<times> 'a"
  primary_identifier :: "'a \<Rightarrow> pyval"
  lookup_user :: "pyval \<Rightarrow> 'a \<Rightarrow> (exn + identity_context option) \<times> 'a"
  check_permission :: "string list \<Rightarrow> 'a \<Rightarrow> exn option \<times> 'a"
  make_response_error :: "string \<Rightarrow> nat \<Rightarrow> 'b"

text \<open>What \<^verbatim>\<open>inner_wrapper\<close> returns: the endpoint's result, or an error response with its code.\<close>

datatype ('r, 'b) wrapped = Result 'r | ErrorResponse 'b nat

definition on_app :: "('a \<Rightarrow> 'x \<times> 'a) \<Rightarrow> 'a api_state \<Rightarrow> 'x \<times> 'a api_state" where
  "on_app g st = (case g (app st) of (r, a) \<Rightarrow> (r, st\<lparr>app := a\<rparr>))"

definition set_identity :: "identity_context option \<Rightarrow> 'a api_state \<Rightarrow> 'a api_state" where
  "set_identity i st = st\<lparr>request_identity := i\<rparr>"

section \<open>\<^verbatim>\<open>UnauthorizedError\<close>\<close>

text \<open>\<^verbatim>\<open>perm.split(':')\<close>: the pieces between the colons, one more than there are colons.\<close>

fun split_colon :: "string \<Rightarrow> string list" where
  "split_colon [] = [[]]"
| "split_colon (x # xs) =
     (if x = CHR '':'' then [] # split_colon xs
      else (case split_colon xs of [] \<Rightarrow> [[x]] | p # ps \<Rightarrow> (x # p) # ps))"

text \<open>
  The text of one permission in the message. \<^verbatim>\<open>perm[1]\<close> raises \<^verbatim>\<open>IndexError\<close> when the
  permission has no colon.
\<close>

definition perm_text :: "string \<Rightarrow> exn + string" where
  "perm_text perm =
     (case split_colon perm of
        d # a # rest \<Rightarrow>
          Inr (''domain='' @ d @ '' action='' @ a @ '' target=''
                 @ (case rest of [] \<Rightarrow> ''*'' | t # _ \<Rightarrow> t))
      | _ \<Rightarrow> Inl (Exn IndexError ''list index out of range''))"

fun perm_texts :: "string list \<Rightarrow> exn + string list" where
  "perm_texts [] = Inr []"
| "perm_texts (p # ps) =
     (case perm_text p of
        Inl e \<Rightarrow> Inl e
      | Inr t \<Rightarrow> (case perm_texts ps of Inl e \<Rightarrow> Inl e | Inr ts \<Rightarrow> Inr (t # ts)))"

fun join_comma :: "string list \<Rightarrow> string" where
  "join_comma [] = []"
| "join_comma [t] = t"
| "join_comma (t # ts) = t @ '','' @ join_comma ts"

text \<open>
  The constructor, called on a list of permissions: the new exception, or the
  \<^verbatim>\<open>IndexError\<close> that building its message raised.
\<close>

definition new_UnauthorizedError :: "string list \<Rightarrow> exn + exn" where
  "new_UnauthorizedError required_permissions =
     (case perm_texts required_permissions of
        Inl e \<Rightarrow> Inl e
      | Inr ts \<Rightarrow> Inr (Exn UnauthorizedError (''Not authorized. Requires permissions: '' @ join_comma ts)))"

text \<open>The exception that \<^verbatim>\<open>raise UnauthorizedError(permissions)\<close> leaves the statement with.\<close>

definition raise_UnauthorizedError :: "string list \<Rightarrow> exn" where
  "raise_UnauthorizedError required_permissions =
     (case new_UnauthorizedError required_permissions of Inl e \<Rightarrow> e | Inr e \<Rightarrow> e)"

section \<open>The authorization handler: operations\<close>

text \<open>
  \<^verbatim>\<open>DbAuthorizationHandler.authenticate\<close>. Without credentials the identity is anonymous.
  With them the subject logs in, which may raise; the user is then looked up, and a lookup
  that raises anything at all gives \<^verbatim>\<open>None\<close>.
\<close>

definition authenticate ::
  "('a, 'b) collaborators \<Rightarrow> request \<Rightarrow> 'a api_state \<Rightarrow> (exn + identity_context option) \<times> 'a api_state" where
  "authenticate h req st =
     (case on_app (get_current_subject h) st of
        (Some e, st0) \<Rightarrow> (Inl e, st0)
      | (None, st0) \<Rightarrow>
          (case authorization req of
             Some (user, password) \<Rightarrow>
               (case on_app (subject_login h user password) st0 of
                  (Some e, st1) \<Rightarrow> (Inl e, st1)
                | (None, st1) \<Rightarrow>
                    (case on_app (lookup_user h (primary_identifier h (app st1))) st1 of
                       (Inl e, st2) \<Rightarrow> (Inr None, st2)
                     | (Inr identity, st2) \<Rightarrow> (Inr identity, st2)))
           | None \<Rightarrow>
               (Inr (Some \<lparr>username = PyNone, user_account = PyNone, user_account_type = PyNone\<rparr>), st0)))"

text \<open>
  \<^verbatim>\<open>DbAuthorizationHandler.authorize\<close>: the subject must be the identity, and the permission
  check must pass. \<^verbatim>\<open>ValueError\<close> and Yosai's \<^verbatim>\<open>UnauthorizedException\<close> become
  \<^verbatim>\<open>UnauthorizedError\<close>; any other exception of the check is passed on.
\<close>

definition authorize ::
  "('a, 'b) collaborators \<Rightarrow> identity_context \<Rightarrow> string list \<Rightarrow> 'a api_state \<Rightarrow> exn option \<times> 'a api_state" where
  "authorize h identity permission_list st =
     (case on_app (get_current_subject h) st of
        (Some e, st0) \<Rightarrow> (Some e, st0)
      | (None, st0) \<Rightarrow>
          (if primary_identifier h (app st0) \<noteq> username identity
           then (Some (raise_UnauthorizedError permission_list), st0)
           else
             (case on_app (check_permission h permission_list) st0 of
                (Some ex, st1) \<Rightarrow>
                  (if exn_cls ex = ValueError \<or> exn_cls ex = UnauthorizedException
                   then (Some (raise_UnauthorizedError permission_list), st1)
                   else (Some ex, st1))
              | (None, st1) \<Rightarrow> (None, st1))))"

text \<open>
  The first step of \<^verbatim>\<open>inner_wrapper\<close>: \<^verbatim>\<open>authenticate\<close> under a bare \<^verbatim>\<open>except\<close>. Whatever
  it raises, and an identity that is \<^verbatim>\<open>None\<close> or has no user name, ends as
  \<^verbatim>\<open>UnauthenticatedError\<close>.
\<close>

definition authenticated ::
  "('a, 'b) collaborators \<Rightarrow> request \<Rightarrow> 'a api_state \<Rightarrow> (exn + identity_context) \<times> 'a api_state" where
  "authenticated h req st =
     (case authenticate h req st of
        (Inl e, st1) \<Rightarrow> (Inl (Exn UnauthenticatedError ''Authentication Required''), st1)
      | (Inr None, st1) \<Rightarrow> (Inl (Exn UnauthenticatedError ''Authentication Required''), st1)
      | (Inr (Some identity), st1) \<Rightarrow>
          (if \<not> truthy (username identity)
           then (Inl (Exn UnauthenticatedError ''Authentication Required''), st1)
           else (Inr identity, st1)))"

text \<open>
  Binding one field of a permission. \<^verbatim>\<open>x if x else '*'\<close> replaces \<^verbatim>\<open>None\<close> and the empty
  string (an object is truthy); an object with \<^verbatim>\<open>bind\<close> is bound and its value taken. The
  object comes back with its new \<^verbatim>\<open>_value\<close>.
\<close>

fun field_truthy :: "'s perm_field \<Rightarrow> bool" where
  "field_truthy (Plain v) = truthy v"
| "field_truthy (Lazy l) = True"

fun lazy_bind :: "kwargs \<Rightarrow> 's \<Rightarrow> 's lazy_value \<Rightarrow> exn + 's lazy_value" where
  "lazy_bind kw st (LazyBoundValue v) = Inr (LazyBoundValue v)"
| "lazy_bind kw st (FunctionInjectedValue loader v) =
     (case loader st of Inl e \<Rightarrow> Inl e | Inr x \<Rightarrow> Inr (FunctionInjectedValue loader x))"
| "lazy_bind kw st (ParameterBoundValue param_name v) =
     Inr (ParameterBoundValue param_name
            (if kw \<noteq> [] then (case map_of kw param_name of None \<Rightarrow> PyNone | Some x \<Rightarrow> x) else v))"

fun lazy_value_of :: "'s lazy_value \<Rightarrow> pyval" where
  "lazy_value_of (LazyBoundValue v) = v"
| "lazy_value_of (FunctionInjectedValue loader v) = v"
| "lazy_value_of (ParameterBoundValue param_name v) = v"

definition bind_field :: "kwargs \<Rightarrow> 's \<Rightarrow> 's perm_field \<Rightarrow> exn + ('s perm_field \<times> pyval)" where
  "bind_field kw st f =
     (if \<not> field_truthy f then Inr (f, PyStr ''*'')
      else
        (case f of
           Plain v \<Rightarrow> Inr (f, v)
         | Lazy l \<Rightarrow>
             (case lazy_bind kw st l of
                Inl e \<Rightarrow> Inl e
              | Inr l' \<Rightarrow> Inr (Lazy l', lazy_value_of l'))))"

text \<open>
  \<^verbatim>\<open>':'.join([domain, action, target])\<close>, which wants three strings: the \<^verbatim>\<open>TypeError\<close> it
  raises names the first item that is none (here a value is a string or \<^verbatim>\<open>None\<close>).
\<close>

definition join_colon :: "pyval \<Rightarrow> pyval \<Rightarrow> pyval \<Rightarrow> exn + string" where
  "join_colon x y z =
     (case x of
        PyNone \<Rightarrow> Inl (Exn TypeError ''sequence item 0: expected str instance, NoneType found'')
      | PyStr d \<Rightarrow>
          (case y of
             PyNone \<Rightarrow> Inl (Exn TypeError ''sequence item 1: expected str instance, NoneType found'')
           | PyStr a \<Rightarrow>
               (case z of
                  PyNone \<Rightarrow> Inl (Exn TypeError ''sequence item 2: expected str instance, NoneType found'')
                | PyStr t \<Rightarrow> Inr (d @ '':'' @ a @ '':'' @ t))))"

text \<open>One round of the loop over \<^verbatim>\<open>permission_s\<close>: the bound permission string.\<close>

definition bind_permission ::
  "kwargs \<Rightarrow> 's \<Rightarrow> 's permission \<Rightarrow> (exn + string) \<times> 's permission" where
  "bind_permission kw st perm =
     (case bind_field kw st (perm_domain perm) of
        Inl e \<Rightarrow> (Inl e, perm)
      | Inr (d', d) \<Rightarrow>
          (case bind_field kw st (perm_action perm) of
             Inl e \<Rightarrow> (Inl e, Permission d' (perm_action perm) (perm_target perm))
           | Inr (a', a) \<Rightarrow>
               (case bind_field kw st (perm_target perm) of
                  Inl e \<Rightarrow> (Inl e, Permission d' a' (perm_target perm))
                | Inr (t', t) \<Rightarrow> (join_colon d a t, Permission d' a' t'))))"

fun bind_permissions ::
  "kwargs \<Rightarrow> 's \<Rightarrow> 's permission list \<Rightarrow> (exn + string list) \<times> 's permission list" where
  "bind_permissions kw st [] = (Inr [], [])"
| "bind_permissions kw st (perm # rest) =
     (case bind_permission kw st perm of
        (Inl e, perm') \<Rightarrow> (Inl e, perm' # rest)
      | (Inr p, perm') \<Rightarrow>
          (case bind_permissions kw st rest of
             (Inl e, rest') \<Rightarrow> (Inl e, perm' # rest')
           | (Inr ps, rest') \<Rightarrow> (Inr (p # ps), perm' # rest')))"

text \<open>
  The authorization step of \<^verbatim>\<open>inner_wrapper\<close>: \<^verbatim>\<open>UnauthorizedError\<close> goes on as it is,
  any other \<^verbatim>\<open>Exception\<close> is replaced by a new \<^verbatim>\<open>UnauthorizedError\<close>, and an exception that
  is no \<^verbatim>\<open>Exception\<close> passes through.
\<close>

definition authorized ::
  "('a, 'b) collaborators \<Rightarrow> identity_context \<Rightarrow> string list \<Rightarrow> 'a api_state \<Rightarrow> exn option \<times> 'a api_state" where
  "authorized h identity permissions_final st =
     (case authorize h identity permissions_final st of
        (Some ex, st1) \<Rightarrow>
          (if exn_cls ex = UnauthorizedError then (Some ex, st1)
           else if isinstance_Exception ex then (Some (raise_UnauthorizedError permissions_final), st1)
           else (Some ex, st1))
      | (None, st1) \<Rightarrow> (None, st1))"

text \<open>
  The inner \<^verbatim>\<open>try\<close> block of \<^verbatim>\<open>inner_wrapper\<close> with its \<^verbatim>\<open>finally\<close>: authenticate, set the
  identity, bind the permissions, authorize, call the endpoint; in the end the identity of
  the request context is cleared, however the block was left. The endpoint \<open>f\<close> is given
  the keyword arguments and works on the whole state.
\<close>

definition guarded ::
  "('a, 'b) collaborators \<Rightarrow> 'a api_state permission list \<Rightarrow>
   (kwargs \<Rightarrow> 'a api_state \<Rightarrow> (exn + 'r) \<times> 'a api_state) \<Rightarrow> request \<Rightarrow> kwargs \<Rightarrow> 'a api_state \<Rightarrow>
   ((exn + 'r) \<times> 'a api_state permission list) \<times> 'a api_state" where
  "guarded h permission_s f req kw st =
     (case
        (case authenticated h req st of
           (Inl e, st1) \<Rightarrow> ((Inl e, permission_s), st1)
         | (Inr identity, st1) \<Rightarrow>
             (let st2 = set_identity (Some identity) st1
              in case bind_permissions kw st2 permission_s of
                   (Inl e, perms') \<Rightarrow> ((Inl e, perms'), st2)
                 | (Inr permissions_final, perms') \<Rightarrow>
                     (case authorized h identity permissions_final st2 of
                        (Some e, st3) \<Rightarrow> ((Inl e, perms'), st3)
                      | (None, st3) \<Rightarrow>
                          (case f kw st3 of (r, st4) \<Rightarrow> ((r, perms'), st4)))))
      of (r, st') \<Rightarrow> (r, set_identity None st'))"

text \<open>
  The block under \<^verbatim>\<open>with Yosai.context(self._yosai)\<close>: when the context cannot be entered
  nothing of the block runs; otherwise the context is left again however the block ends.
\<close>

definition in_yosai_context ::
  "('a, 'b) collaborators \<Rightarrow> 'a api_state permission list \<Rightarrow>
   (kwargs \<Rightarrow> 'a api_state \<Rightarrow> (exn + 'r) \<times> 'a api_state) \<Rightarrow> request \<Rightarrow> kwargs \<Rightarrow> 'a api_state \<Rightarrow>
   ((exn + 'r) \<times> 'a api_state permission list) \<times> 'a api_state" where
  "in_yosai_context h permission_s f req kw st =
     (case on_app (yosai_context_enter h) st of
        (Some e, st0) \<Rightarrow> ((Inl e, permission_s), st0)
      | (None, st0) \<Rightarrow>
          (case guarded h permission_s f req kw st0 of
             (r, st1) \<Rightarrow> (r, st1\<lparr>app := yosai_context_exit h (app st1)\<rparr>)))"

text \<open>
  \<^verbatim>\<open>inner_wrapper\<close>: the three handlers around that block. \<^verbatim>\<open>UnauthorizedError\<close> gives 403
  with the text of the exception, \<^verbatim>\<open>UnauthenticatedError\<close> 401, any other \<^verbatim>\<open>Exception\<close>
  500; an exception that is no \<^verbatim>\<open>Exception\<close> is caught by none of them.
\<close>

definition inner_wrapper ::
  "('a, 'b) collaborators \<Rightarrow> 'a api_state permission list \<Rightarrow>
   (kwargs \<Rightarrow> 'a api_state \<Rightarrow> (exn + 'r) \<times> 'a api_state) \<Rightarrow> request \<Rightarrow> kwargs \<Rightarrow> 'a api_state \<Rightarrow>
   ((exn + ('r, 'b) wrapped) \<times> 'a api_state permission list) \<times> 'a api_state" where
  "inner_wrapper h permission_s f req kw st =
     (case in_yosai_context h permission_s f req kw st of
        ((Inr v, perms), st') \<Rightarrow> ((Inr (Result v), perms), st')
      | ((Inl ex, perms), st') \<Rightarrow>
          (if exn_cls ex = UnauthorizedError
           then ((Inr (ErrorResponse (make_response_error h (exn_msg ex) 403) 403), perms), st')
           else if exn_cls ex = UnauthenticatedError
           then ((Inr (ErrorResponse (make_response_error h ''Unauthorized'' 401) 401), perms), st')
           else if isinstance_Exception ex
           then ((Inr (ErrorResponse (make_response_error h ''Internal error'' 500) 500), perms), st')
           else ((Inl ex, perms), st')))"

section \<open>Notions the properties are stated with\<close>

text \<open>The parts of an entry of the step table, as the loop names them.\<close>

definition step_from :: "'w upgrade_step \<Rightarrow> string" where
  "step_from s = fst (fst s)"

definition step_to :: "'w upgrade_step \<Rightarrow> string" where
  "step_to s = snd (fst s)"

definition step_functions :: "'w upgrade_step \<Rightarrow> 'w upgrade_fn list" where
  "step_functions s = snd s"

text \<open>
  A valid version string is one \<^verbatim>\<open>StrictVersion\<close> parses. The order of two version strings
  is the order \<^verbatim>\<open>StrictVersion\<close> gives them; it holds of valid strings only.
\<close>

definition valid_version :: "string \<Rightarrow> bool" where
  "valid_version x = (sv_parse x \<noteq> None)"

definition vlt :: "string \<Rightarrow> string \<Rightarrow> bool" where
  "vlt x y = (case (sv_parse x, sv_parse y) of (Some a, Some b) \<Rightarrow> sv_cmp a b < 0 | _ \<Rightarrow> False)"

definition vle :: "string \<Rightarrow> string \<Rightarrow> bool" where
  "vle x y = (case (sv_parse x, sv_parse y) of (Some a, Some b) \<Rightarrow> sv_cmp a b \<le> 0 | _ \<Rightarrow> False)"

definition veq :: "string \<Rightarrow> string \<Rightarrow> bool" where
  "veq x y = (case (sv_parse x, sv_parse y) of (Some a, Some b) \<Rightarrow> sv_cmp a b = 0 | _ \<Rightarrow> False)"

text \<open>
  A key whose lexicographic order is the order of \<^verbatim>\<open>__cmp__\<close>: a version without
  pre-release tag comes after the same numbers with one.
\<close>

definition sv_key :: "strict_version \<Rightarrow> nat \<times> nat \<times> nat \<times> nat \<times> nat \<times> nat" where
  "sv_key a = (sv_major a, sv_minor a, sv_patch a,
     (case sv_prerelease a of None \<Rightarrow> (1, 0, 0) | Some (c, n) \<Rightarrow> (0, of_char c, n)))"

text \<open>What a run leaves behind, without the value it returns: the exception, if any, and the state.\<close>

definition outcome :: "(exn + 'a) \<times> 'w world \<Rightarrow> exn option \<times> 'w world" where
  "outcome r = (case r of (Inl e, w) \<Rightarrow> (Some e, w) | (Inr v, w) \<Rightarrow> (None, w))"

text \<open>
  The steps an upgrade from \<open>a\<close> to \<open>c\<close> reaches, told from the table alone: a step
  whose \<^verbatim>\<open>toVersion\<close> is above \<open>a\<close> and whose predecessor in the table, if it has one,
  has a \<^verbatim>\<open>toVersion\<close> below \<open>c\<close>. The first argument is the \<^verbatim>\<open>toVersion\<close> of the
  step before the list.
\<close>

fun reached :: "string option \<Rightarrow> string \<Rightarrow> string \<Rightarrow> 'w upgrade_step list \<Rightarrow> 'w upgrade_step list" where
  "reached p a c [] = []"
| "reached p a c (s # rest) =
     (if vlt a (step_to s) \<and> (case p of None \<Rightarrow> True | Some pt \<Rightarrow> vlt pt c) then [s] else [])
     @ reached (Some (step_to s)) a c rest"

text \<open>The dictionary \<^verbatim>\<open>get_versions\<close> builds for the code's versions.\<close>

definition code_versions_of :: "'w env \<Rightarrow> versions" where
  "code_versions_of env = [''service_version'' \<mapsto> version_version env,
                           ''db_version'' \<mapsto> version_db_version env]"

text \<open>The state after the advisory lock of \<^verbatim>\<open>run_upgrade\<close> is taken, and after it is released.\<close>

definition locked :: "'w world \<Rightarrow> 'w world" where
  "locked w = emit (LockAcquire upgrade_lock_namespace my_module_upgrade_id) w"

definition unlocked :: "'w world \<Rightarrow> 'w world" where
  "unlocked w = emit (LockRelease upgrade_lock_namespace my_module_upgrade_id) w"

text \<open>
  A function that works on the tables other than the version table, and the property of a
  migration function to leave the version table as it found it.
\<close>

definition on_schema :: "('w \<Rightarrow> exn option \<times> 'w) \<Rightarrow> 'w database \<Rightarrow> exn option \<times> 'w database" where
  "on_schema g d = (case g (snd d) of (r, s) \<Rightarrow> (r, (fst d, s)))"

definition leaves_version_table :: "'w upgrade_fn \<Rightarrow> bool" where
  "leaves_version_table f = (\<forall>d. fst (snd (fn_body f d)) = fst d)"

text \<open>
  The table \<^verbatim>\<open>upgrade_functions\<close> at the end of the module, and the module's globals
  around it. The five functions alter and fill the tables \<^verbatim>\<open>registries\<close>,
  \<^verbatim>\<open>policy_bundle\<close>, \<^verbatim>\<open>images\<close>, \<^verbatim>\<open>feed_data_gem_packages\<close>, \<^verbatim>\<open>catalog_image\<close>,
  \<^verbatim>\<open>queuemeta\<close>, \<^verbatim>\<open>queue\<close> and the archive tables, never the version table; what they do
  there is a parameter.
\<close>

definition module_upgrade_functions :: "(string \<Rightarrow> 'w \<Rightarrow> exn option \<times> 'w) \<Rightarrow> 'w upgrade_step list" where
  "module_upgrade_functions body =
     [((''0.0.1'', ''0.0.2''),
       [\<lparr>fn_name = ''db_upgrade_001_002'', fn_body = on_schema (body ''db_upgrade_001_002'')\<rparr>]),
      ((''0.0.2'', ''0.0.3''),
       [\<lparr>fn_name = ''db_upgrade_002_003'', fn_body = on_schema (body ''db_upgrade_002_003'')\<rparr>]),
      ((''0.0.3'', ''0.0.4''),
       [\<lparr>fn_name = ''db_upgrade_003_004'', fn_body = on_schema (body ''db_upgrade_003_004'')\<rparr>]),
      ((''0.0.4'', ''0.0.5''),
       [\<lparr>fn_name = ''db_upgrade_004_005'', fn_body = on_schema (body ''db_upgrade_004_005'')\<rparr>]),
      ((''0.0.5'', ''0.0.6''),
       [\<lparr>fn_name = ''db_upgrade_005_006'', fn_body = on_schema (body ''db_upgrade_005_006'')\<rparr>])]"

definition module_env ::
  "bool \<Rightarrow> (string \<Rightarrow> 'w \<Rightarrow> exn option \<times> 'w) \<Rightarrow> pyval \<Rightarrow> pyval \<Rightarrow> 'w env" where
  "module_env twisted body service_version db_version =
     \<lparr>upgrade_enabled = True, upgrade_functions = module_upgrade_functions body,
      version_version = service_version, version_db_version = db_version,
      twisted_log = twisted\<rparr>"

text \<open>
  A step table declared in ascending order: every step goes from a version to a later one,
  and no step starts before the step in front of it ends.
\<close>

fun ascending :: "'w upgrade_step list \<Rightarrow> bool" where
  "ascending [] = True"
| "ascending [s] = vlt (step_from s) (step_to s)"
| "ascending (s # t # rest) =
     (vlt (step_from s) (step_to s) \<and> vle (step_to s) (step_from t) \<and> ascending (t # rest))"

text \<open>A table without gaps: every step starts at the version the step in front of it ends at.\<close>

fun gap_free :: "'w upgrade_step list \<Rightarrow> bool" where
  "gap_free (s # t # rest) = (veq (step_to s) (step_from t) \<and> gap_free (t # rest))"
| "gap_free _ = True"

text \<open>The calls that running the given steps leaves in the trace.\<close>

definition calls_of :: "'w upgrade_step list \<Rightarrow> event list" where
  "calls_of steps = concat (map (\<lambda>s. map (\<lambda>f. Call (fn_name f)) (step_functions s)) steps)"

text \<open>
  A step whose range lies within \<open>[a, c)\<close>, and a version that is a boundary of the table
  (the \<^verbatim>\<open>fromVersion\<close> or \<^verbatim>\<open>toVersion\<close> of one of its steps).
\<close>

definition within :: "string \<Rightarrow> string \<Rightarrow> 'w upgrade_step \<Rightarrow> bool" where
  "within a c s = (vle a (step_from s) \<and> vle (step_to s) c)"

definition is_boundary :: "'w upgrade_step list \<Rightarrow> string \<Rightarrow> bool" where
  "is_boundary tbl v = (\<exists>s\<in>set tbl. veq v (step_from s) \<or> veq v (step_to s))"

text \<open>The events that are calls of migration functions.\<close>

fun is_call :: "event \<Rightarrow> bool" where
  "is_call (Call n) = True"
| "is_call _ = False"


text \<open>
  The functions of a list all return, each one started on the database the one before it
  left: the relation between the database before the first and after the last.
\<close>

fun all_return :: "'w upgrade_fn list \<Rightarrow> 'w database \<Rightarrow> 'w database \<Rightarrow> bool" where
  "all_return [] d d' = (d' = d)"
| "all_return (f # fs) d d' =
     (case fn_body f d of (None, d1) \<Rightarrow> all_return fs d1 d' | (Some e, d1) \<Rightarrow> False)"

text \<open>
  The exception that leaves the handler of \<^verbatim>\<open>do_upgrade\<close> when a migration function has
  raised \<open>e\<close>.
\<close>

definition reraised :: "bool \<Rightarrow> exn \<Rightarrow> exn" where
  "reraised twisted e =
     (if isinstance_Exception e
      then (case log_exception twisted of Some e' \<Rightarrow> e' | None \<Rightarrow> e)
      else e)"

section \<open>Auxiliary facts\<close>

subsection \<open>The order of versions\<close>

text \<open>
  The comparison of \<^verbatim>\<open>StrictVersion\<close> is the lexicographic order of the keys, so that
  it is a linear order on the versions parsed.
\<close>

lemma sv_cmp_key: "sv_cmp a b = (if sv_key a < sv_key b then -1 else if sv_key a = sv_key b then 0 else 1)"
  by (cases a; cases b)
     (auto simp: sv_cmp_def sv_key_def cmp_version_def cmp_nat_def cmp_prerelease_def Let_def less_prod_def
           split: option.splits)

lemma sv_cmp_neg: "sv_cmp a b < 0 \<longleftrightarrow> sv_key a < sv_key b"
  by (simp add: sv_cmp_key)

lemma sv_cmp_pos: "sv_cmp a b > 0 \<longleftrightarrow> sv_key b < sv_key a"
  by (auto simp: sv_cmp_key)

lemma sv_cmp_le: "sv_cmp a b \<le> 0 \<longleftrightarrow> sv_key a \<le> sv_key b"
  by (auto simp: sv_cmp_key)

lemma sv_cmp_ge: "sv_cmp a b \<ge> 0 \<longleftrightarrow> sv_key b \<le> sv_key a"
  by (auto simp: sv_cmp_key)

lemma sv_cmp_zero: "sv_cmp a b = 0 \<longleftrightarrow> sv_key a = sv_key b"
  by (auto simp: sv_cmp_key)

lemma sv_parse_nonempty: "sv_parse x = Some a \<Longrightarrow> x \<noteq> []"
  by (auto simp: sv_parse_def match_number_def)

lemma StrictVersion_valid: "sv_parse x = Some a \<Longrightarrow> StrictVersion (PyStr x) = Inr (Some a)"
  by (frule sv_parse_nonempty) (simp add: StrictVersion_def)

lemma compare_versions_valid:
  "sv_parse x = Some a \<Longrightarrow> sv_parse y = Some b \<Longrightarrow>
   compare_versions (PyStr x) (PyStr y) = Inr (sv_cmp a b)"
  by (simp add: compare_versions_def StrictVersion_valid)

lemma vlt_iff: "sv_parse x = Some a \<Longrightarrow> sv_parse y = Some b \<Longrightarrow> vlt x y \<longleftrightarrow> sv_key a < sv_key b"
  by (simp add: vlt_def sv_cmp_neg)

lemma vle_iff: "sv_parse x = Some a \<Longrightarrow> sv_parse y = Some b \<Longrightarrow> vle x y \<longleftrightarrow> sv_key a \<le> sv_key b"
  by (simp add: vle_def sv_cmp_le)

lemma veq_iff: "sv_parse x = Some a \<Longrightarrow> sv_parse y = Some b \<Longrightarrow> veq x y \<longleftrightarrow> sv_key a = sv_key b"
  by (simp add: veq_def sv_cmp_zero)

lemma vltD: "vlt x y \<Longrightarrow> \<exists>a b. sv_parse x = Some a \<and> sv_parse y = Some b \<and> sv_key a < sv_key b"
  by (auto simp: vlt_def sv_cmp_neg split: option.splits)

lemma vleD: "vle x y \<Longrightarrow> \<exists>a b. sv_parse x = Some a \<and> sv_parse y = Some b \<and> sv_key a \<le> sv_key b"
  by (auto simp: vle_def sv_cmp_le split: option.splits)

lemma veqD: "veq x y \<Longrightarrow> \<exists>a b. sv_parse x = Some a \<and> sv_parse y = Some b \<and> sv_key a = sv_key b"
  by (auto simp: veq_def sv_cmp_zero split: option.splits)

lemma vlt_neq: "vlt x y \<Longrightarrow> x \<noteq> y"
  by (auto dest!: vltD)

lemma vlt_trans: "vlt x y \<Longrightarrow> vlt y z \<Longrightarrow> vlt x z"
  by (auto simp: vlt_def sv_cmp_neg split: option.splits)

lemma vle_vlt_trans: "vle x y \<Longrightarrow> vlt y z \<Longrightarrow> vlt x z"
  by (auto simp: vlt_def vle_def sv_cmp_neg sv_cmp_le split: option.splits)

lemma vle_trans: "vle x y \<Longrightarrow> vle y z \<Longrightarrow> vle x z"
  by (auto simp: vle_def sv_cmp_le split: option.splits)

lemma vlt_imp_vle: "vlt x y \<Longrightarrow> vle x y"
  by (auto simp: vlt_def vle_def sv_cmp_neg sv_cmp_le split: option.splits)

lemma veq_vlt_left: "veq x y \<Longrightarrow> vlt x z = vlt y z"
  by (auto simp: vlt_def veq_def sv_cmp_neg sv_cmp_zero split: option.splits)

lemmas version_eval =
  vlt_def vle_def veq_def sv_parse_def match_number_def match_patch_def
  match_prerelease_def is_digit_def atoi_def digit_val_def sv_cmp_def cmp_version_def cmp_nat_def
  cmp_prerelease_def compare_versions_def StrictVersion_def

subsection \<open>Step tables\<close>

text \<open>
  In a table declared in ascending order every step ends before the later ones start.
\<close>

lemma ascending_Cons:
  "ascending (s # rest) \<Longrightarrow>
   ascending rest \<and> vlt (step_from s) (step_to s) \<and>
   (\<forall>t\<in>set rest. vle (step_to s) (step_from t) \<and> vlt (step_to s) (step_to t))"
proof (induction rest arbitrary: s)
  case Nil
  then show ?case by simp
next
  case (Cons t rest)
  from Cons.prems have st: "vlt (step_from s) (step_to s)" "vle (step_to s) (step_from t)"
    and asc: "ascending (t # rest)"
    by simp_all
  from Cons.IH [OF asc] have tt: "vlt (step_from t) (step_to t)"
    and later: "\<forall>u\<in>set rest. vle (step_to t) (step_from u) \<and> vlt (step_to t) (step_to u)"
    by simp_all
  have s_t: "vlt (step_to s) (step_to t)"
    using st(2) tt by (rule vle_vlt_trans)
  have "vle (step_to s) (step_from u) \<and> vlt (step_to s) (step_to u)" if "u \<in> set rest" for u
    using later that s_t vlt_trans vlt_imp_vle vle_trans by blast
  then show ?case
    using st asc s_t by auto
qed

lemma ascending_sorted_to:
  "ascending tbl \<Longrightarrow> sorted_wrt (\<lambda>s t. vlt (step_to s) (step_to t)) tbl"
  by (induction tbl) (auto dest: ascending_Cons)

lemma ascending_valid_to:
  "ascending tbl \<Longrightarrow> \<forall>s\<in>set tbl. valid_version (step_to s)"
proof (induction tbl)
  case Nil
  then show ?case by simp
next
  case (Cons s rest)
  from ascending_Cons [OF Cons.prems] have "ascending rest" "vlt (step_from s) (step_to s)"
    by simp_all
  then show ?case
    using Cons.IH by (auto simp: valid_version_def dest!: vltD)
qed

lemma ascending_member:
  "ascending tbl \<Longrightarrow> s \<in> set tbl \<Longrightarrow> vlt (step_from s) (step_to s)"
  by (induction tbl) (auto dest: ascending_Cons)

lemma ascending_pairwise:
  "ascending tbl \<Longrightarrow> s \<in> set tbl \<Longrightarrow> t \<in> set tbl \<Longrightarrow>
   s = t \<or> vle (step_to s) (step_from t) \<or> vle (step_to t) (step_from s)"
proof (induction tbl)
  case Nil
  then show ?case by simp
next
  case (Cons u rest)
  from ascending_Cons [OF Cons.prems(1)] have asc: "ascending rest"
    and later: "\<forall>t\<in>set rest. vle (step_to u) (step_from t)"
    by simp_all
  show ?case
    using Cons.IH [OF asc] Cons.prems(2,3) later by auto
qed


lemma boundary_lower:
  assumes "ascending tbl" "s0 \<in> set tbl" "veq a (step_from s0) \<or> veq a (step_to s0)" "s \<in> set tbl"
  shows "vlt a (step_to s) \<longleftrightarrow> vle a (step_from s)"
proof -
  have "vlt (step_from s) (step_to s)" "vlt (step_from s0) (step_to s0)"
    using assms(1,2,4) by (auto intro: ascending_member)
  moreover have "s0 = s \<or> vle (step_to s0) (step_from s) \<or> vle (step_to s) (step_from s0)"
    using assms(1,2,4) by (rule ascending_pairwise)
  ultimately show ?thesis
    using assms(3)
    by (auto simp: vlt_def vle_def veq_def sv_cmp_neg sv_cmp_le sv_cmp_zero split: option.splits)
qed

lemma boundary_upper:
  assumes "ascending tbl" "s0 \<in> set tbl" "veq c (step_from s0) \<or> veq c (step_to s0)" "s \<in> set tbl"
  shows "vlt (step_from s) c \<longleftrightarrow> vle (step_to s) c"
proof -
  have "vlt (step_from s) (step_to s)" "vlt (step_from s0) (step_to s0)"
    using assms(1,2,4) by (auto intro: ascending_member)
  moreover have "s0 = s \<or> vle (step_to s0) (step_from s) \<or> vle (step_to s) (step_from s0)"
    using assms(1,2,4) by (rule ascending_pairwise)
  ultimately show ?thesis
    using assms(3)
    by (auto simp: vlt_def vle_def veq_def sv_cmp_neg sv_cmp_le sv_cmp_zero split: option.splits)
qed

lemma boundary_above_first:
  assumes "ascending (s # rest)" "is_boundary (s # rest) a"
  shows "vle (step_from s) a"
proof -
  from assms(2) obtain s0 where s0: "s0 \<in> set (s # rest)"
    "veq a (step_from s0) \<or> veq a (step_to s0)"
    unfolding is_boundary_def by blast
  have "vlt (step_from s) (step_to s)" "vlt (step_from s0) (step_to s0)"
    using assms(1) s0(1) by (auto intro: ascending_member)
  moreover have "s0 = s \<or> vle (step_to s) (step_from s0)"
    using ascending_Cons [OF assms(1)] s0(1) by auto
  ultimately show ?thesis
    using s0(2)
    by (auto simp: vlt_def vle_def veq_def sv_cmp_neg sv_cmp_le sv_cmp_zero split: option.splits)
qed

lemma overlap_within:
  assumes "ascending tbl" "is_boundary tbl a" "is_boundary tbl c"
  shows "filter (\<lambda>s. vlt a (step_to s) \<and> vlt (step_from s) c) tbl = filter (within a c) tbl"
proof (rule filter_cong [OF refl])
  fix s assume s: "s \<in> set tbl"
  from assms(2) obtain s0 where "s0 \<in> set tbl" "veq a (step_from s0) \<or> veq a (step_to s0)"
    by (auto simp: is_boundary_def)
  from boundary_lower [OF assms(1) this s] have lo: "vlt a (step_to s) \<longleftrightarrow> vle a (step_from s)" .
  from assms(3) obtain s1 where "s1 \<in> set tbl" "veq c (step_from s1) \<or> veq c (step_to s1)"
    by (auto simp: is_boundary_def)
  from boundary_upper [OF assms(1) this s] have up: "vlt (step_from s) c \<longleftrightarrow> vle (step_to s) c" .
  show "(vlt a (step_to s) \<and> vlt (step_from s) c) = within a c s"
    by (simp add: within_def lo up)
qed

lemma module_table_ascending: "ascending (module_upgrade_functions body)"
  by (simp add: module_upgrade_functions_def step_from_def step_to_def version_eval)

lemma module_table_gap_free: "gap_free (module_upgrade_functions body)"
  by (simp add: module_upgrade_functions_def step_from_def step_to_def version_eval)

subsection \<open>The functions of a step\<close>

text \<open>
  Running a list of functions stops at the first that raises, and leaves one call in the
  trace for each function it started.
\<close>

lemma run_functions_append:
  "run_functions tw (fs @ gs) w =
     (case run_functions tw fs w of (Some e, w1) \<Rightarrow> (Some e, w1) | (None, w1) \<Rightarrow> run_functions tw gs w1)"
  by (induction fs arbitrary: w) (auto simp: Let_def split: prod.splits option.splits)

lemma run_functions_trace:
  "run_functions tw fs w = (r, w1) \<Longrightarrow>
   \<exists>k\<le>length fs. trace w1 = trace w @ map (\<lambda>f. Call (fn_name f)) (take k fs)
       \<and> (r = None \<longrightarrow> k = length fs)"
proof (induction fs arbitrary: w)
  case Nil
  then show ?case by simp
next
  case (Cons f fs)
  obtain x d where body: "fn_body f (database (emit (Call (fn_name f)) w)) = (x, d)"
    by (cases "fn_body f (database (emit (Call (fn_name f)) w))") auto
  show ?case
  proof (cases x)
    case None
    with Cons.prems body have "run_functions tw fs (with_database d (emit (Call (fn_name f)) w)) = (r, w1)"
      by (simp add: Let_def)
    from Cons.IH [OF this] obtain k where k: "k \<le> length fs"
      "trace w1 = trace w @ Call (fn_name f) # map (\<lambda>f. Call (fn_name f)) (take k fs)"
      "r = None \<longrightarrow> k = length fs"
      by (auto simp: emit_def with_database_def)
    show ?thesis
      using k by (intro exI [of _ "Suc k"]) auto
  next
    case (Some e)
    with body have "run_functions tw (f # fs) w = (Some (reraised tw e), with_database d (emit (Call (fn_name f)) w))"
      by (simp add: Let_def reraised_def split: option.splits)
    with Cons.prems have "w1 = with_database d (emit (Call (fn_name f)) w)" "r \<noteq> None"
      by simp_all
    then show ?thesis
      by (intro exI [of _ "Suc 0"]) (auto simp: emit_def with_database_def)
  qed
qed

lemma run_functions_anchore:
  "\<forall>f\<in>set fs. leaves_version_table f \<Longrightarrow> run_functions tw fs w = (r, w1) \<Longrightarrow> anchore w1 = anchore w"
proof (induction fs arbitrary: w)
  case Nil
  then show ?case by simp
next
  case (Cons f fs)
  obtain x d where body: "fn_body f (database (emit (Call (fn_name f)) w)) = (x, d)"
    by (cases "fn_body f (database (emit (Call (fn_name f)) w))") auto
  from Cons.prems(1) have "leaves_version_table f" by simp
  then have "fst (snd (fn_body f (database (emit (Call (fn_name f)) w)))) = fst (database (emit (Call (fn_name f)) w))"
    unfolding leaves_version_table_def by blast
  then have "fst d = fst (database (emit (Call (fn_name f)) w))"
    unfolding body by simp
  then have d: "fst d = anchore w"
    by (simp add: database_def emit_def)
  show ?case
  proof (cases x)
    case None
    with Cons.prems body have "run_functions tw fs (with_database d (emit (Call (fn_name f)) w)) = (r, w1)"
      by (simp add: Let_def)
    from Cons.IH [OF _ this] Cons.prems(1) show ?thesis
      by (simp add: d with_database_def emit_def)
  next
    case (Some e)
    with body have "run_functions tw (f # fs) w = (Some (reraised tw e), with_database d (emit (Call (fn_name f)) w))"
      by (simp add: Let_def reraised_def split: option.splits)
    with Cons.prems have "w1 = with_database d (emit (Call (fn_name f)) w)"
      by simp
    then show ?thesis
      by (simp add: d with_database_def emit_def)
  qed
qed

lemma run_functions_all_return:
  "run_functions tw fs w = (None, w1) \<longleftrightarrow>
   all_return fs (database w) (database w1) \<and> trace w1 = trace w @ map (\<lambda>f. Call (fn_name f)) fs"
proof (induction fs arbitrary: w)
  case Nil
  show ?case
    by (cases w; cases w1) (auto simp: database_def)
next
  case (Cons f fs)
  obtain x d where body: "fn_body f (database w) = (x, d)"
    by (cases "fn_body f (database w)") auto
  have db: "database (emit (Call (fn_name f)) w) = database w"
    by (simp add: database_def emit_def)
  have next_db: "database (with_database d (emit (Call (fn_name f)) w)) = d"
    by (simp add: database_def with_database_def)
  have next_trace: "trace (with_database d (emit (Call (fn_name f)) w)) = trace w @ [Call (fn_name f)]"
    by (simp add: with_database_def emit_def)
  show ?case
  proof (cases x)
    case None
    then show ?thesis
      using body Cons.IH [of "with_database d (emit (Call (fn_name f)) w)"]
      by (simp add: Let_def db next_db next_trace)
  next
    case (Some e)
    then show ?thesis
      using body by (auto simp: Let_def db split: option.splits)
  qed
qed

lemma run_functions_calls:
  assumes "run_functions tw fs w = (r, w1)"
  shows "\<exists>calls. list_all is_call calls \<and> trace w1 = trace w @ calls"
proof -
  from run_functions_trace [OF assms] obtain k where
    "trace w1 = trace w @ map (\<lambda>f. Call (fn_name f)) (take k fs)"
    by blast
  moreover have "list_all is_call (map (\<lambda>f. Call (fn_name f)) (take k fs))"
    by (simp add: list_all_iff)
  ultimately show ?thesis by blast
qed

lemma run_functions_raise_at:
  assumes "k < length fns" and "run_functions tw (take k fns) w = (None, wk)"
    and "fn_body (fns ! k) (database wk) = (Some e, d)"
  shows "run_functions tw fns w = (Some (reraised tw e), with_database d (emit (Call (fn_name (fns ! k))) wk))"
proof -
  have "fns = take k fns @ fns ! k # drop (Suc k) fns"
    using assms(1) by (simp add: id_take_nth_drop)
  then have "run_functions tw fns w = run_functions tw (take k fns @ fns ! k # drop (Suc k) fns) w"
    by simp
  also have "\<dots> = run_functions tw (fns ! k # drop (Suc k) fns) wk"
    by (simp add: run_functions_append assms(2))
  also have "\<dots> = (Some (reraised tw e), with_database d (emit (Call (fn_name (fns ! k))) wk))"
    using assms(3) by (simp add: emit_def database_def reraised_def split: option.splits)
  finally show ?thesis .
qed


lemma calls_of_concat:
  "calls_of steps = map (\<lambda>f. Call (fn_name f)) (concat (map step_functions steps))"
  by (simp add: calls_of_def map_concat comp_def)

subsection \<open>The loop over the table\<close>

text \<open>
  One round of the loop on valid versions, the loop on a table split in two, and the
  steps the loop runs from a cursor below the target.
\<close>

lemma upgrade_loop_step:
  assumes "sv_parse cur = Some vc" "sv_parse tgt = Some vt" "sv_parse (step_to s) = Some vs"
  shows "upgrade_loop tw (PyStr tgt) (s # rest) (PyStr cur) w =
     (if sv_key vt \<le> sv_key vc then (Inr (PyStr cur), w)
      else if sv_key vs \<le> sv_key vc then upgrade_loop tw (PyStr tgt) rest (PyStr cur) w
      else (case run_functions tw (step_functions s) w of
              (Some e, w1) \<Rightarrow> (Inl e, w1)
            | (None, w1) \<Rightarrow> upgrade_loop tw (PyStr tgt) rest (PyStr (step_to s)) w1))"
proof -
  obtain db_from db_to fns where s: "s = ((db_from, db_to), fns)"
    by (metis surj_pair)
  from assms(3) have to: "sv_parse db_to = Some vs"
    by (simp add: s step_to_def)
  show ?thesis
    unfolding s step_to_def step_functions_def fst_conv snd_conv
    by (simp add: compare_versions_valid [OF assms(1) assms(2)]
        compare_versions_valid [OF to assms(1)] sv_cmp_ge sv_cmp_le)
qed

lemma upgrade_loop_done:
  "compare_versions cur t = Inr c1 \<Longrightarrow> c1 \<ge> 0 \<Longrightarrow> upgrade_loop tw t tbl cur w = (Inr cur, w)"
  by (cases "(tw, t, tbl, cur, w)" rule: upgrade_loop.cases) auto

lemma upgrade_loop_append:
  "upgrade_loop tw t (pre @ rest) cur w =
     (case upgrade_loop tw t pre cur w of
        (Inl e, w1) \<Rightarrow> (Inl e, w1)
      | (Inr cur1, w1) \<Rightarrow> upgrade_loop tw t rest cur1 w1)"
proof (induction tw t pre cur w rule: upgrade_loop.induct)
  case (1 tw db_target db_current w)
  then show ?case by simp
next
  case (2 tw db_target db_from db_to functions_to_run rest' db_current w)
  show ?case
  proof (cases "compare_versions db_current db_target")
    case (Inl e)
    then show ?thesis by simp
  next
    case c1: (Inr c1)
    show ?thesis
    proof (cases "c1 \<ge> 0")
      case True
      then show ?thesis
        using c1 by (simp add: upgrade_loop_done [OF c1 True])
    next
      case nb: False
      show ?thesis
      proof (cases "compare_versions (PyStr db_to) db_current")
        case (Inl e)
        then show ?thesis using c1 nb by simp
      next
        case c2: (Inr c2)
        show ?thesis
        proof (cases "c2 \<le> 0")
          case True
          then show ?thesis
            using c1 nb c2 "2.IH"(1) [OF c1 nb c2 True] by simp
        next
          case sel: False
          obtain x w2 where run: "run_functions tw functions_to_run w = (x, w2)"
            by (cases "run_functions tw functions_to_run w") auto
          show ?thesis
          proof (cases x)
            case None
            then show ?thesis
              using c1 nb c2 sel run "2.IH"(2) [OF c1 nb c2 sel]
              by auto
          next
            case (Some e)
            then show ?thesis
              using c1 nb c2 sel run by simp
          qed
        qed
      qed
    qed
  qed
qed

lemma upgrade_loop_selects:
  "upgrade_loop tw t tbl cur w = (r, w1) \<Longrightarrow>
   \<exists>steps x. subseq steps tbl
     \<and> run_functions tw (concat (map step_functions steps)) w = (x, w1)
     \<and> (\<forall>v. r = Inr v \<longrightarrow> x = None)"
proof (induction tw t tbl cur w arbitrary: r w1 rule: upgrade_loop.induct)
  case (1 tw db_target db_current w)
  then show ?case
    by (intro exI [of _ "[]"]) auto
next
  case (2 tw db_target db_from db_to functions_to_run rest db_current w)
  let ?s = "((db_from, db_to), functions_to_run)"
  have stay: ?case if "w1 = w"
    using that by (intro exI [of _ "[]"] exI [of _ None]) simp
  show ?case
  proof (cases "compare_versions db_current db_target")
    case (Inl e)
    with "2.prems" show ?thesis by (auto intro: stay)
  next
    case c1: (Inr c1)
    show ?thesis
    proof (cases "c1 \<ge> 0")
      case True
      with "2.prems" c1 show ?thesis by (auto intro: stay)
    next
      case nb: False
      show ?thesis
      proof (cases "compare_versions (PyStr db_to) db_current")
        case (Inl e)
        with "2.prems" c1 nb show ?thesis by (auto intro: stay)
      next
        case c2: (Inr c2)
        show ?thesis
        proof (cases "c2 \<le> 0")
          case True
          with "2.prems" c1 nb c2 have "upgrade_loop tw db_target rest db_current w = (r, w1)"
            by simp
          from "2.IH"(1) [OF c1 nb c2 True this] obtain steps x where
            "subseq steps rest" "run_functions tw (concat (map step_functions steps)) w = (x, w1)"
            "\<forall>v. r = Inr v \<longrightarrow> x = None"
            by blast
          then show ?thesis
            by (intro exI [of _ steps] exI [of _ x]) auto
        next
          case sel: False
          obtain x w2 where run: "run_functions tw functions_to_run w = (x, w2)"
            by (cases "run_functions tw functions_to_run w") auto
          show ?thesis
          proof (cases x)
            case None
            with "2.prems" c1 nb c2 sel run
            have rest: "upgrade_loop tw db_target rest (PyStr db_to) w2 = (r, w1)"
              by simp
            from "2.IH"(2) [OF c1 nb c2 sel _ _ rest] run None
            obtain steps y where steps: "subseq steps rest"
              "run_functions tw (concat (map step_functions steps)) w2 = (y, w1)"
              "\<forall>v. r = Inr v \<longrightarrow> y = None"
              by auto
            have "run_functions tw (concat (map step_functions (?s # steps))) w = (y, w1)"
              using run None steps(2) by (simp add: step_functions_def run_functions_append)
            then show ?thesis
              using steps(1,3) by (intro exI [of _ "?s # steps"] exI [of _ y]) auto
          next
            case (Some e)
            with "2.prems" c1 nb c2 sel run have "w1 = w2" "r = Inl e"
              by simp_all
            moreover have "run_functions tw (concat (map step_functions [?s])) w = (x, w2)"
              using run by (simp add: step_functions_def)
            ultimately show ?thesis
              by (intro exI [of _ "[?s]"] exI [of _ x]) auto
          qed
        qed
      qed
    qed
  qed
qed

lemma upgrade_loop_calls:
  assumes "upgrade_loop tw t tbl cur w = (r, w1)"
  shows "\<exists>calls. list_all is_call calls \<and> trace w1 = trace w @ calls"
  using upgrade_loop_selects [OF assms] run_functions_calls by blast

lemma reached_none:
  "\<not> vlt q c \<Longrightarrow> \<forall>s\<in>set tbl. \<not> vlt (step_to s) c \<Longrightarrow> reached (Some q) a c tbl = []"
  by (induction tbl arbitrary: q) auto

lemma upgrade_loop_after:
  assumes "sorted_wrt (\<lambda>s t. vlt (step_to s) (step_to t)) tbl"
    and "\<forall>s\<in>set tbl. vlt q (step_to s)"
    and "sv_parse q = Some vq" "sv_parse a = Some va" "sv_parse c = Some vc"
    and "sv_key va \<le> sv_key vq"
  shows "outcome (upgrade_loop tw (PyStr c) tbl (PyStr q) w) =
         run_functions tw (concat (map step_functions (reached (Some q) a c tbl))) w"
  using assms
proof (induction tbl arbitrary: q vq w)
  case Nil
  then show ?case by (simp add: outcome_def)
next
  case (Cons s rest)
  from Cons.prems(2) have "vlt q (step_to s)" by simp
  then obtain vs where vs: "sv_parse (step_to s) = Some vs" and qs: "sv_key vq < sv_key vs"
    using Cons.prems(3) by (auto dest!: vltD)
  note step = upgrade_loop_step [OF Cons.prems(3) Cons.prems(5) vs]
  have as: "vlt a (step_to s)"
    using vlt_iff [OF Cons.prems(4) vs] qs Cons.prems(6) by auto
  show ?case
  proof (cases "sv_key vc \<le> sv_key vq")
    case True
    then have nq: "\<not> vlt q c"
      using vlt_iff [OF Cons.prems(3) Cons.prems(5)] by auto
    have "\<forall>t\<in>set (s # rest). \<not> vlt (step_to t) c"
    proof
      fix t assume "t \<in> set (s # rest)"
      with Cons.prems(2) have "vlt q (step_to t)" by blast
      then obtain vt where "sv_parse (step_to t) = Some vt" "sv_key vq < sv_key vt"
        using Cons.prems(3) by (auto dest!: vltD)
      then show "\<not> vlt (step_to t) c"
        using vlt_iff [OF _ Cons.prems(5)] True by auto
    qed
    then have "reached (Some q) a c (s # rest) = []"
      using reached_none [OF nq] by blast
    then show ?thesis
      using True by (simp add: step outcome_def)
  next
    case False
    then have qc: "vlt q c"
      using vlt_iff [OF Cons.prems(3) Cons.prems(5)] by auto
    have sel: "reached (Some q) a c (s # rest) = s # reached (Some (step_to s)) a c rest"
      using qc as by simp
    have ih: "outcome (upgrade_loop tw (PyStr c) rest (PyStr (step_to s)) w1) =
         run_functions tw (concat (map step_functions (reached (Some (step_to s)) a c rest))) w1" for w1
    proof (rule Cons.IH [OF _ _ vs Cons.prems(4) Cons.prems(5)])
      show "sorted_wrt (\<lambda>s t. vlt (step_to s) (step_to t)) rest"
        using Cons.prems(1) by simp
      show "\<forall>t\<in>set rest. vlt (step_to s) (step_to t)"
        using Cons.prems(1) by simp
      show "sv_key va \<le> sv_key vs"
        using qs Cons.prems(6) by auto
    qed
    have nle: "\<not> sv_key vs \<le> sv_key vq"
      using qs by auto
    obtain r w1 where run: "run_functions tw (step_functions s) w = (r, w1)"
      by (cases "run_functions tw (step_functions s) w") auto
    show ?thesis
    proof (cases r)
      case None
      then show ?thesis
        using False nle qc as by (simp add: step run_functions_append run ih)
    next
      case (Some e)
      then show ?thesis
        using False nle qc as by (simp add: step run_functions_append run outcome_def)
    qed
  qed
qed

lemma upgrade_loop_before:
  assumes "sorted_wrt (\<lambda>s t. vlt (step_to s) (step_to t)) tbl"
    and "\<forall>s\<in>set tbl. valid_version (step_to s)"
    and "sv_parse a = Some va" "sv_parse c = Some vc" "sv_key va < sv_key vc"
    and "case p of None \<Rightarrow> True | Some pt \<Rightarrow> vle pt a"
  shows "outcome (upgrade_loop tw (PyStr c) tbl (PyStr a) w) =
         run_functions tw (concat (map step_functions (reached p a c tbl))) w"
  using assms
proof (induction tbl arbitrary: p w)
  case Nil
  then show ?case by (simp add: outcome_def)
next
  case (Cons s rest)
  from Cons.prems(2) obtain vs where vs: "sv_parse (step_to s) = Some vs"
    by (auto simp: valid_version_def)
  note step = upgrade_loop_step [OF Cons.prems(3) Cons.prems(4) vs]
  have ac: "vlt a c" "\<not> sv_key vc \<le> sv_key va"
    using vlt_iff [OF Cons.prems(3) Cons.prems(4)] Cons.prems(5) by auto
  have sorted_rest: "sorted_wrt (\<lambda>s t. vlt (step_to s) (step_to t)) rest"
    and valid_rest: "\<forall>s\<in>set rest. valid_version (step_to s)"
    using Cons.prems(1,2) by simp_all
  show ?case
  proof (cases "sv_key vs \<le> sv_key va")
    case True
    then have le: "vle (step_to s) a" and nlt: "\<not> vlt a (step_to s)"
      using vle_iff [OF vs Cons.prems(3)] vlt_iff [OF Cons.prems(3) vs] by auto
    have "outcome (upgrade_loop tw (PyStr c) rest (PyStr a) w) =
          run_functions tw (concat (map step_functions (reached (Some (step_to s)) a c rest))) w"
      by (rule Cons.IH [OF sorted_rest valid_rest Cons.prems(3,4,5)]) (simp add: le)
    then show ?thesis
      using True ac(2) nlt by (simp add: step)
  next
    case False
    then have lt: "vlt a (step_to s)" and le: "sv_key va \<le> sv_key vs"
      using vlt_iff [OF Cons.prems(3) vs] by auto
    have pc: "case p of None \<Rightarrow> True | Some pt \<Rightarrow> vlt pt c"
      using Cons.prems(6) ac(1) by (auto split: option.splits intro: vle_vlt_trans)
    have later: "\<forall>t\<in>set rest. vlt (step_to s) (step_to t)"
      using Cons.prems(1) by simp
    have after: "outcome (upgrade_loop tw (PyStr c) rest (PyStr (step_to s)) w1) =
          run_functions tw (concat (map step_functions (reached (Some (step_to s)) a c rest))) w1" for w1
      by (rule upgrade_loop_after [OF sorted_rest later vs Cons.prems(3,4) le])
    obtain r w1 where run: "run_functions tw (step_functions s) w = (r, w1)"
      by (cases "run_functions tw (step_functions s) w") auto
    show ?thesis
    proof (cases r)
      case None
      then show ?thesis
        using False ac(2) lt pc by (simp add: step run_functions_append run after)
    next
      case (Some e)
      then show ?thesis
        using False ac(2) lt pc by (simp add: step run_functions_append run outcome_def)
    qed
  qed
qed

lemma reached_gap_free:
  assumes "ascending tbl" "gap_free tbl" "vlt a c"
    and "case tbl of [] \<Rightarrow> True | s # _ \<Rightarrow>
           (case p of None \<Rightarrow> vle (step_from s) a | Some pt \<Rightarrow> veq pt (step_from s))"
  shows "reached p a c tbl = filter (\<lambda>s. vlt a (step_to s) \<and> vlt (step_from s) c) tbl"
  using assms
proof (induction tbl arbitrary: p)
  case Nil
  then show ?case by simp
next
  case (Cons s rest)
  from ascending_Cons [OF Cons.prems(1)] have asc: "ascending rest"
    by simp
  have gf: "gap_free rest"
    using Cons.prems(2) by (cases rest) simp_all
  have nxt: "case rest of [] \<Rightarrow> True | t # _ \<Rightarrow>
           (case Some (step_to s) of None \<Rightarrow> vle (step_from t) a | Some pt \<Rightarrow> veq pt (step_from t))"
    using Cons.prems(2) by (cases rest) simp_all
  have ih: "reached (Some (step_to s)) a c rest =
        filter (\<lambda>s. vlt a (step_to s) \<and> vlt (step_from s) c) rest"
    by (rule Cons.IH [OF asc gf Cons.prems(3) nxt])
  have "(case p of None \<Rightarrow> True | Some pt \<Rightarrow> vlt pt c) = vlt (step_from s) c"
  proof (cases p)
    case None
    with Cons.prems(4) have "vle (step_from s) a" by simp
    then have "vlt (step_from s) c"
      using Cons.prems(3) by (rule vle_vlt_trans)
    then show ?thesis
      using None by simp
  next
    case (Some pt)
    with Cons.prems(4) have "veq pt (step_from s)" by simp
    then show ?thesis
      using Some by (simp add: veq_vlt_left)
  qed
  then show ?case
    using ih by simp
qed

lemma reached_within:
  assumes "ascending tbl" "gap_free tbl" "vlt a c" "is_boundary tbl a" "is_boundary tbl c"
  shows "reached None a c tbl = filter (within a c) tbl"
proof -
  have "case tbl of [] \<Rightarrow> True | s # _ \<Rightarrow>
           (case None :: string option of None \<Rightarrow> vle (step_from s) a | Some pt \<Rightarrow> veq pt (step_from s))"
    using boundary_above_first assms(1,4) by (auto split: list.splits)
  from reached_gap_free [OF assms(1,2,3) this] show ?thesis
    by (simp add: overlap_within [OF assms(1,4,5)])
qed


subsection \<open>The upgrade as a whole\<close>

text \<open>
  \<^verbatim>\<open>do_upgrade\<close> adds calls to the trace and nothing else; \<^verbatim>\<open>run_upgrade\<close> is the lock
  around the read of the versions and one of four branches.
\<close>

lemma do_upgrade_outcome:
  assumes "ascending (upgrade_functions env)" and "upgrade_enabled env" and "vlt a c"
    and "inplace ''db_version'' = Some (PyStr a)" and "incode ''db_version'' = Some (PyStr c)"
    and "inplace ''service_version'' = Some sa" and "incode ''service_version'' = Some sc"
  shows "do_upgrade env inplace incode w =
           (case run_functions (twisted_log env) (concat (map step_functions (reached None a c (upgrade_functions env)))) w of
              (Some e, w1) \<Rightarrow> (Inl e, w1)
            | (None, w1) \<Rightarrow> (Inr True, w1))"
proof -
  from assms(3) obtain va vc where va: "sv_parse a = Some va" and vc: "sv_parse c = Some vc"
    and lt: "sv_key va < sv_key vc"
    by (auto dest!: vltD)
  have cmp: "compare_versions (PyStr a) (PyStr c) = Inr (sv_cmp va vc)"
    by (rule compare_versions_valid [OF va vc])
  have neg: "\<not> sv_cmp va vc > 0"
    using lt by (simp add: sv_cmp_pos)
  have ne: "a \<noteq> c"
    by (rule vlt_neq [OF assms(3)])
  have loop: "outcome (upgrade_loop (twisted_log env) (PyStr c) (upgrade_functions env) (PyStr a) w) =
      run_functions (twisted_log env) (concat (map step_functions (reached None a c (upgrade_functions env)))) w"
    by (rule upgrade_loop_before [OF ascending_sorted_to [OF assms(1)]
          ascending_valid_to [OF assms(1)] va vc lt]) simp
  obtain r w1 where res: "upgrade_loop (twisted_log env) (PyStr c) (upgrade_functions env) (PyStr a) w = (r, w1)"
    by (cases "upgrade_loop (twisted_log env) (PyStr c) (upgrade_functions env) (PyStr a) w") auto
  show ?thesis
  proof (cases r)
    case (Inl e)
    with loop res have "run_functions (twisted_log env) (concat (map step_functions (reached None a c (upgrade_functions env)))) w
        = (Some e, w1)"
      by (simp add: outcome_def)
    then show ?thesis
      using neg ne Inl res assms(2,4,5)
      by (simp add: do_upgrade_def getitem_def StrictVersion_valid [OF va] cmp)
  next
    case (Inr cur)
    with loop res have "run_functions (twisted_log env) (concat (map step_functions (reached None a c (upgrade_functions env)))) w
        = (None, w1)"
      by (simp add: outcome_def)
    then show ?thesis
      using neg ne Inr res assms(2,4,5,6,7)
      by (simp add: do_upgrade_def getitem_def StrictVersion_valid [OF va] cmp)
  qed
qed

lemma do_upgrade_selects:
  assumes "do_upgrade env inplace incode w = (r, w1)"
  shows "\<exists>steps x. subseq steps (upgrade_functions env)
     \<and> run_functions (twisted_log env) (concat (map step_functions steps)) w = (x, w1)
     \<and> (\<forall>v. r = Inr v \<longrightarrow> x = None)"
proof -
  have same: ?thesis if "w1 = w"
    using that by (intro exI [of _ "[]"] exI [of _ None]) simp
  obtain cur where cur: "getitem inplace ''db_version'' = Inr cur \<or> w1 = w"
    using assms by (cases "getitem inplace ''db_version''") (auto simp: do_upgrade_def)
  obtain x w2 where loop:
    "(if cur \<noteq> the (incode ''db_version'') \<and> upgrade_enabled env
      then upgrade_loop (twisted_log env) (the (incode ''db_version'')) (upgrade_functions env) cur w
      else (Inr cur, w)) = (x, w2)"
    by (metis surj_pair)
  have w2: "\<exists>steps y. subseq steps (upgrade_functions env)
     \<and> run_functions (twisted_log env) (concat (map step_functions steps)) w = (y, w2)
     \<and> (\<forall>v. x = Inr v \<longrightarrow> y = None)"
  proof (cases "cur \<noteq> the (incode ''db_version'') \<and> upgrade_enabled env")
    case True
    with loop show ?thesis
      by (auto dest!: upgrade_loop_selects)
  next
    case False
    with loop show ?thesis
      by (intro exI [of _ "[]"] exI [of _ None]) auto
  qed
  have "w1 = w \<or> (w1 = w2 \<and> (\<forall>v. r = Inr v \<longrightarrow> (\<exists>c. x = Inr c)))"
    using assms loop cur
    by (auto simp: do_upgrade_def getitem_def split: option.splits sum.splits if_splits prod.splits)
  then show ?thesis
    using same w2 by blast
qed

lemma do_upgrade_calls:
  assumes "do_upgrade env inplace incode w = (r, w1)"
  shows "\<exists>calls. list_all is_call calls \<and> trace w1 = trace w @ calls"
  using do_upgrade_selects [OF assms] run_functions_calls by blast

lemma leaves_subseq:
  assumes "\<forall>s\<in>set tbl. \<forall>f\<in>set (step_functions s). leaves_version_table f" and "subseq steps tbl"
  shows "\<forall>f\<in>set (concat (map step_functions steps)). leaves_version_table f"
  using assms list_emb_set [of "(=)" steps tbl] by fastforce

lemma do_upgrade_anchore:
  assumes "\<forall>s\<in>set (upgrade_functions env). \<forall>f\<in>set (step_functions s). leaves_version_table f"
    and "do_upgrade env inplace incode w = (r, w1)"
  shows "anchore w1 = anchore w"
proof -
  from do_upgrade_selects [OF assms(2)] obtain steps x where
    "subseq steps (upgrade_functions env)"
    "run_functions (twisted_log env) (concat (map step_functions steps)) w = (x, w1)"
    by blast
  then show ?thesis
    using leaves_subseq [OF assms(1)] run_functions_anchore by blast
qed

lemma do_upgrade_True:
  "do_upgrade env inplace incode w = (Inr v, w1) \<Longrightarrow> v"
  by (auto simp: do_upgrade_def split: sum.splits if_splits prod.splits)

lemma get_versions_Records:
  "anchore w = Records d \<Longrightarrow> get_versions env w = Inr (code_versions_of env, d)"
  by (simp add: get_versions_def db_anchore_get_def code_versions_of_def)

lemma get_versions_NoTable:
  "anchore w = NoTable \<Longrightarrow>
   get_versions env w = Inl (Exn TableNotFoundError ''anchore table not found'')"
  by (simp add: get_versions_def db_anchore_get_def is_table_not_found_def)

lemma unlocked_locked:
  "unlocked (locked w) = w\<lparr>trace := trace w @ [LockAcquire 1 1, LockRelease 1 1]\<rparr>"
  by (simp add: unlocked_def locked_def emit_def upgrade_lock_namespace_def my_module_upgrade_id_def)

lemma anchore_locked [simp]: "anchore (locked w) = anchore w"
  by (simp add: locked_def emit_def)

lemma anchore_unlocked [simp]: "anchore (unlocked w) = anchore w"
  by (simp add: unlocked_def emit_def)

lemma trace_locked: "trace (locked w) = trace w @ [LockAcquire 1 1]"
  by (simp add: locked_def emit_def upgrade_lock_namespace_def my_module_upgrade_id_def)

lemma trace_unlocked: "trace (unlocked w) = trace w @ [LockRelease 1 1]"
  by (simp add: unlocked_def emit_def upgrade_lock_namespace_def my_module_upgrade_id_def)

lemma run_upgrade_Records:
  "anchore w = Records d \<Longrightarrow>
   run_upgrade env w =
     (case run_upgrade_body env (code_versions_of env, d) (locked w) of (r, w1) \<Rightarrow> (r, unlocked w1))"
  by (simp add: run_upgrade_def locked_def unlocked_def emit_def get_versions_Records)

lemma run_upgrade_read_fails:
  "get_versions env (locked w) = Inl e \<Longrightarrow> run_upgrade env w = (Inl e, unlocked (locked w))"
  by (simp add: run_upgrade_def locked_def unlocked_def)

lemma do_upgrade_success_code:
  "do_upgrade_success dbv (code_versions_of env) w =
     (case anchore w of
        Records d \<Rightarrow>
          (Inr True, (emit (AnchoreAdd (version_version env) (version_db_version env) (code_versions_of env)) w)
                       \<lparr>anchore := Records (code_versions_of env)\<rparr>)
      | NoTable \<Rightarrow>
          (Inl (Exn ProgrammingError ''relation anchore does not exist''),
           emit (AnchoreAdd (version_version env) (version_db_version env) (code_versions_of env)) w)
      | Unreadable m \<Rightarrow>
          (Inl (Exn OperationalError m),
           emit (AnchoreAdd (version_version env) (version_db_version env) (code_versions_of env)) w))"
  by (simp add: do_upgrade_success_def getitem_def code_versions_of_def db_anchore_add_def Let_def
      split: anchore_store.splits)

lemma do_upgrade_success_Records:
  "anchore w = Records d \<Longrightarrow>
   do_upgrade_success dbv (code_versions_of env) w =
     (Inr True, (emit (AnchoreAdd (version_version env) (version_db_version env) (code_versions_of env)) w)
                  \<lparr>anchore := Records (code_versions_of env)\<rparr>)"
  by (simp add: do_upgrade_success_code)

lemma run_upgrade_body_cases:
  "run_upgrade_body env ctx w =
     (if \<not> truthy (dict_get (fst ctx) ''db_version'') then
        (Inl (Exn Exception (''cannot code version (code_db_version='' @ py_str (dict_get (fst ctx) ''db_version'')
                @ '' running_db_version='' @ py_str (dict_get (snd ctx) ''db_version'') @ '')'')), w)
      else if dict_get (snd ctx) ''db_version'' = PyNone
              \<or> dict_get (fst ctx) ''db_version'' = dict_get (snd ctx) ''db_version'' then (Inr None, w)
      else
        (case do_upgrade env (snd ctx) (fst ctx) w of
           (Inl err, w1) \<Rightarrow> (Inl err, w1)
         | (Inr rc, w1) \<Rightarrow>
             (case do_upgrade_success (snd ctx) (fst ctx) w1 of
                (Inl err, w2) \<Rightarrow> (Inl err, w2)
              | (Inr rc', w2) \<Rightarrow> (Inr (Some rc'), w2))))"
proof -
  have "rc" if "do_upgrade env (snd ctx) (fst ctx) w = (Inr rc, w1)" for rc w1
    using that by (rule do_upgrade_True)
  then show ?thesis
    by (auto simp: run_upgrade_body_def Let_def split: prod.splits sum.splits)
qed

lemma run_upgrade_upgrading:
  assumes "anchore w = Records d" and "truthy (version_db_version env)"
    and "dict_get d ''db_version'' \<noteq> PyNone" and "version_db_version env \<noteq> dict_get d ''db_version''"
  shows "run_upgrade env w =
     (case do_upgrade env d (code_versions_of env) (locked w) of
        (Inl e, w1) \<Rightarrow> (Inl e, unlocked w1)
      | (Inr rc, w1) \<Rightarrow>
          (case do_upgrade_success d (code_versions_of env) w1 of
             (Inl e, w2) \<Rightarrow> (Inl e, unlocked w2)
           | (Inr rc', w2) \<Rightarrow> (Inr (Some rc'), unlocked w2)))"
proof -
  have code: "dict_get (code_versions_of env) ''db_version'' = version_db_version env"
    by (simp add: dict_get_def code_versions_of_def)
  show ?thesis
    using assms(2,3,4)
    by (simp add: run_upgrade_Records [OF assms(1)] run_upgrade_body_cases code
        split: sum.splits prod.splits)
qed

lemma run_upgrade_upgrading_kept:
  assumes "anchore w = Records d" and "truthy (version_db_version env)"
    and "dict_get d ''db_version'' \<noteq> PyNone" and "version_db_version env \<noteq> dict_get d ''db_version''"
    and "\<forall>s\<in>set (upgrade_functions env). \<forall>f\<in>set (step_functions s). leaves_version_table f"
  shows "run_upgrade env w =
     (case do_upgrade env d (code_versions_of env) (locked w) of
        (Inl e, w1) \<Rightarrow> (Inl e, unlocked w1)
      | (Inr rc, w1) \<Rightarrow>
          (Inr (Some True),
           unlocked ((emit (AnchoreAdd (version_version env) (version_db_version env) (code_versions_of env)) w1)
                       \<lparr>anchore := Records (code_versions_of env)\<rparr>)))"
proof -
  obtain r w1 where du: "do_upgrade env d (code_versions_of env) (locked w) = (r, w1)"
    by (metis surj_pair)
  from do_upgrade_anchore [OF assms(5) du] have "anchore w1 = Records d"
    using assms(1) by simp
  note ok = do_upgrade_success_Records [OF this]
  show ?thesis
    using du by (simp add: run_upgrade_upgrading [OF assms(1-4)] ok split: sum.splits)
qed

lemma leaves_on_schema: "fn_body f = on_schema g \<Longrightarrow> leaves_version_table f"
  by (simp add: leaves_version_table_def on_schema_def split: prod.splits)

lemma module_table_leaves:
  "\<forall>s\<in>set (module_upgrade_functions body). \<forall>f\<in>set (step_functions s). leaves_version_table f"
  by (simp add: module_upgrade_functions_def step_functions_def leaves_on_schema)

lemma run_upgrade_cases:
  obtains
    (read_fails) e where "get_versions env (locked w) = Inl e"
      "run_upgrade env w = (Inl e, unlocked (locked w))"
  | (undeclared) d where "anchore w = Records d" "\<not> truthy (version_db_version env)"
      "run_upgrade env w =
         (Inl (Exn Exception (''cannot code version (code_db_version='' @ py_str (version_db_version env)
                @ '' running_db_version='' @ py_str (dict_get d ''db_version'') @ '')'')),
          unlocked (locked w))"
  | (nothing_to_do) d where "anchore w = Records d" "truthy (version_db_version env)"
      "dict_get d ''db_version'' = PyNone \<or> version_db_version env = dict_get d ''db_version''"
      "run_upgrade env w = (Inr None, unlocked (locked w))"
  | (upgrading) d where "anchore w = Records d" "truthy (version_db_version env)"
      "dict_get d ''db_version'' \<noteq> PyNone" "version_db_version env \<noteq> dict_get d ''db_version''"
      "run_upgrade env w =
         (case do_upgrade env d (code_versions_of env) (locked w) of
            (Inl e, w1) \<Rightarrow> (Inl e, unlocked w1)
          | (Inr rc, w1) \<Rightarrow>
              (case do_upgrade_success d (code_versions_of env) w1 of
                 (Inl e, w2) \<Rightarrow> (Inl e, unlocked w2)
               | (Inr rc', w2) \<Rightarrow> (Inr (Some rc'), unlocked w2)))"
proof (cases "get_versions env (locked w)")
  case (Inl e)
  from this run_upgrade_read_fails [OF this] show ?thesis
    by (rule read_fails)
next
  case (Inr ctx)
  then obtain d where d: "anchore w = Records d"
    by (cases "anchore w") (auto simp: get_versions_def db_anchore_get_def locked_def emit_def split: if_splits)
  have code: "dict_get (code_versions_of env) ''db_version'' = version_db_version env"
    by (simp add: dict_get_def code_versions_of_def)
  consider "\<not> truthy (version_db_version env)"
    | "truthy (version_db_version env)"
      "dict_get d ''db_version'' = PyNone \<or> version_db_version env = dict_get d ''db_version''"
    | "truthy (version_db_version env)" "dict_get d ''db_version'' \<noteq> PyNone"
      "version_db_version env \<noteq> dict_get d ''db_version''"
    by blast
  then show ?thesis
  proof cases
    case 1
    then have "run_upgrade env w =
        (Inl (Exn Exception (''cannot code version (code_db_version='' @ py_str (version_db_version env)
              @ '' running_db_version='' @ py_str (dict_get d ''db_version'') @ '')'')), unlocked (locked w))"
      by (simp add: run_upgrade_Records [OF d] run_upgrade_body_cases code)
    with d 1 show ?thesis
      by (rule undeclared)
  next
    case 2
    then have "run_upgrade env w = (Inr None, unlocked (locked w))"
      by (auto simp: run_upgrade_Records [OF d] run_upgrade_body_cases code)
    with d 2 show ?thesis
      by (rule nothing_to_do)
  next
    case 3
    from d 3 run_upgrade_upgrading [OF d 3] show ?thesis
      by (rule upgrading)
  qed
qed

lemmas upgrade_eval =
  run_upgrade_def get_versions_def db_anchore_get_def is_table_not_found_def run_upgrade_body_def
  dict_get_def do_upgrade_def do_upgrade_success_def db_anchore_add_def getitem_def emit_def Let_def
  upgrade_lock_namespace_def my_module_upgrade_id_def module_env_def module_upgrade_functions_def
  code_versions_of_def locked_def unlocked_def database_def with_database_def on_schema_def
  log_exception_def

subsection \<open>The authorization wrapper\<close>

text \<open>
  A permission string bound by the wrapper has three fields, so that building an
  \<^verbatim>\<open>UnauthorizedError\<close> for it does not fail.
\<close>

lemma split_colon_nonempty: "split_colon s \<noteq> []"
  by (induction s) (auto split: list.splits)

lemma split_colon_append:
  "length (split_colon (xs @ CHR '':'' # ys)) \<ge> Suc (length (split_colon ys))"
proof (induction xs)
  case Nil
  then show ?case by simp
next
  case (Cons x xs)
  then show ?case
    by (cases "split_colon (xs @ CHR '':'' # ys)") auto
qed

lemma split_colon_joined: "length (split_colon (d @ '':'' @ a @ '':'' @ t)) \<ge> 3"
proof -
  have "length (split_colon (d @ CHR '':'' # (a @ CHR '':'' # t))) \<ge> Suc (length (split_colon (a @ CHR '':'' # t)))"
    by (rule split_colon_append)
  moreover have "length (split_colon (a @ CHR '':'' # t)) \<ge> Suc (length (split_colon t))"
    by (rule split_colon_append)
  moreover have "length (split_colon t) \<ge> 1"
    using split_colon_nonempty [of t] by (cases "split_colon t") auto
  ultimately show ?thesis by simp
qed

lemma perm_text_joined: "join_colon x y z = Inr p \<Longrightarrow> \<exists>t. perm_text p = Inr t"
proof -
  assume "join_colon x y z = Inr p"
  then obtain d a t where "p = d @ '':'' @ a @ '':'' @ t"
    by (auto simp: join_colon_def split: pyval.splits)
  then have "length (split_colon p) \<ge> 3"
    using split_colon_joined by simp
  then show ?thesis
    by (cases "split_colon p"; cases "tl (split_colon p)") (auto simp: perm_text_def)
qed

lemma bind_permission_text:
  "bind_permission kw st perm = (Inr p, perm') \<Longrightarrow> \<exists>t. perm_text p = Inr t"
  by (auto simp: bind_permission_def split: sum.splits prod.splits dest: perm_text_joined)

lemma bind_permissions_texts:
  "bind_permissions kw st perms = (Inr ps, perms') \<Longrightarrow> \<exists>ts. perm_texts ps = Inr ts"
proof (induction perms arbitrary: ps perms')
  case Nil
  then show ?case by auto
next
  case (Cons perm rest)
  then obtain p q perm1 rest1 where b: "bind_permission kw st perm = (Inr p, perm1)"
    "bind_permissions kw st rest = (Inr q, rest1)" "ps = p # q"
    by (auto split: prod.splits sum.splits)
  from bind_permission_text [OF b(1)] Cons.IH [OF b(2)] show ?case
    using b(3) by auto
qed

lemma raise_UnauthorizedError_class:
  "perm_texts ps = Inr ts \<Longrightarrow> exn_cls (raise_UnauthorizedError ps) = UnauthorizedError"
  by (simp add: raise_UnauthorizedError_def new_UnauthorizedError_def)

lemma authorized_Exception:
  assumes "perm_texts ps = Inr ts" and "authorize h i ps st = (Some e, st')" and "isinstance_Exception e"
  shows "\<exists>e'. authorized h i ps st = (Some e', st') \<and> exn_cls e' = UnauthorizedError"
  using assms(2,3) raise_UnauthorizedError_class [OF assms(1)]
  by (auto simp: authorized_def)

lemma guarded_returns:
  "guarded h ps f req kw st = ((Inr v, perms), st') \<Longrightarrow> \<exists>s1 s2. f kw s1 = (Inr v, s2)"
  by (auto simp: guarded_def Let_def split: prod.splits sum.splits option.splits)

lemma in_yosai_context_returns:
  "in_yosai_context h ps f req kw st = ((Inr v, perms), st') \<Longrightarrow> \<exists>s1 s2. f kw s1 = (Inr v, s2)"
  by (auto simp: in_yosai_context_def split: prod.splits option.splits dest: guarded_returns)

lemma authenticated_fails:
  assumes "authenticate h req st = (r, st1)"
    and "case r of Inr (Some i) \<Rightarrow> \<not> truthy (username i) | _ \<Rightarrow> True"
  shows "authenticated h req st = (Inl (Exn UnauthenticatedError ''Authentication Required''), st1)"
  using assms by (auto simp: authenticated_def split: sum.splits option.splits)

lemmas authz_eval =
  inner_wrapper_def in_yosai_context_def guarded_def authenticated_def authenticate_def authorized_def
  authorize_def on_app_def set_identity_def bind_permission_def bind_field_def join_colon_def
  raise_UnauthorizedError_def new_UnauthorizedError_def perm_text_def Let_def

section \<open>Properties of the upgrade runner\<close>

text \<open>
  Claim C1, as the code has it. The loop of \<^verbatim>\<open>do_upgrade\<close> never reads a step's
  \<^verbatim>\<open>fromVersion\<close>: it skips a step whose \<^verbatim>\<open>toVersion\<close> is at or below the cursor and stops
  once the cursor has reached the target. For a table declared in ascending order and
  versions \<open>a < c\<close>, the run from \<open>a\<close> to \<open>c\<close> is therefore the run, in the declared
  order and up to the first function that raises, of the functions of exactly the steps
  whose \<^verbatim>\<open>toVersion\<close> is above \<open>a\<close> and whose predecessor in the table, if any, has a
  \<^verbatim>\<open>toVersion\<close> below \<open>c\<close>; when no function raises, \<^verbatim>\<open>do_upgrade\<close> returns \<^verbatim>\<open>True\<close>
  and the trace has grown by the calls of these steps. If the table has no gaps and \<open>a\<close>
  is not below the first step's \<^verbatim>\<open>fromVersion\<close>, these are the steps whose range overlaps
  \<open>[a, c)\<close> (\<^verbatim>\<open>toVersion\<close> above \<open>a\<close> and \<^verbatim>\<open>fromVersion\<close> below \<open>c\<close>): no step with
  \<^verbatim>\<open>toVersion <= a\<close> and none with \<^verbatim>\<open>fromVersion >= c\<close> runs, and a step that straddles
  \<open>a\<close> or \<open>c\<close> runs in full. If moreover \<open>a\<close> and \<open>c\<close> are boundaries of the table,
  they are the steps whose range lies within \<open>[a, c)\<close>.
\<close>

theorem do_upgrade_steps:
  assumes "ascending (upgrade_functions env)" and "upgrade_enabled env" and "vlt a c"
    and "inplace ''db_version'' = Some (PyStr a)" and "incode ''db_version'' = Some (PyStr c)"
    and "inplace ''service_version'' = Some sa" and "incode ''service_version'' = Some sc"
  shows "do_upgrade env inplace incode w =
           (case run_functions (twisted_log env) (concat (map step_functions (reached None a c (upgrade_functions env)))) w of
              (Some e, w1) \<Rightarrow> (Inl e, w1)
            | (None, w1) \<Rightarrow> (Inr True, w1))
       \<and> (\<forall>w1. do_upgrade env inplace incode w = (Inr True, w1) \<longrightarrow>
             trace w1 = trace w @ calls_of (reached None a c (upgrade_functions env)))
       \<and> (gap_free (upgrade_functions env) \<and>
          (case upgrade_functions env of [] \<Rightarrow> True | s # _ \<Rightarrow> vle (step_from s) a) \<longrightarrow>
             reached None a c (upgrade_functions env) =
             filter (\<lambda>s. vlt a (step_to s) \<and> vlt (step_from s) c) (upgrade_functions env))
       \<and> (gap_free (upgrade_functions env) \<and> is_boundary (upgrade_functions env) a
            \<and> is_boundary (upgrade_functions env) c \<longrightarrow>
             reached None a c (upgrade_functions env) = filter (within a c) (upgrade_functions env))"
proof (intro conjI allI impI)
  let ?fs = "concat (map step_functions (reached None a c (upgrade_functions env)))"
  show eq: "do_upgrade env inplace incode w =
           (case run_functions (twisted_log env) ?fs w of (Some e, w1) \<Rightarrow> (Inl e, w1) | (None, w1) \<Rightarrow> (Inr True, w1))"
    by (rule do_upgrade_outcome [OF assms])
  show "trace w1 = trace w @ calls_of (reached None a c (upgrade_functions env))"
    if "do_upgrade env inplace incode w = (Inr True, w1)" for w1
  proof -
    from that eq have "run_functions (twisted_log env) ?fs w = (None, w1)"
      by (auto split: prod.splits option.splits)
    from run_functions_trace [OF this] show ?thesis
      by (auto simp: calls_of_concat)
  qed
  show "reached None a c (upgrade_functions env) =
        filter (\<lambda>s. vlt a (step_to s) \<and> vlt (step_from s) c) (upgrade_functions env)"
    if "gap_free (upgrade_functions env) \<and>
        (case upgrade_functions env of [] \<Rightarrow> True | s # _ \<Rightarrow> vle (step_from s) a)"
    by (rule reached_gap_free [OF assms(1) _ assms(3)]) (use that in \<open>auto split: list.splits\<close>)
  show "reached None a c (upgrade_functions env) = filter (within a c) (upgrade_functions env)"
    if "gap_free (upgrade_functions env) \<and> is_boundary (upgrade_functions env) a
        \<and> is_boundary (upgrade_functions env) c"
    using that by (intro reached_within [OF assms(1) _ assms(3)]) simp_all
qed

theorem do_upgrade_steps_witness:
  "ascending (upgrade_functions (module_env True (\<lambda>n (x::unit). (None, x)) (PyStr ''1.0.0'') (PyStr ''0.0.5'')))
   \<and> upgrade_enabled (module_env True (\<lambda>n (x::unit). (None, x)) (PyStr ''1.0.0'') (PyStr ''0.0.5''))
   \<and> vlt ''0.0.3'' ''0.0.5''
   \<and> gap_free (upgrade_functions (module_env True (\<lambda>n (x::unit). (None, x)) (PyStr ''1.0.0'') (PyStr ''0.0.5'')))
   \<and> is_boundary (upgrade_functions (module_env True (\<lambda>n (x::unit). (None, x)) (PyStr ''1.0.0'') (PyStr ''0.0.5''))) ''0.0.3''
   \<and> is_boundary (upgrade_functions (module_env True (\<lambda>n (x::unit). (None, x)) (PyStr ''1.0.0'') (PyStr ''0.0.5''))) ''0.0.5''
   \<and> do_upgrade (module_env True (\<lambda>n x. (None, x)) (PyStr ''1.0.0'') (PyStr ''0.0.5''))
        [''service_version'' \<mapsto> PyStr ''1.0.0'', ''db_version'' \<mapsto> PyStr ''0.0.3'']
        [''service_version'' \<mapsto> PyStr ''1.0.0'', ''db_version'' \<mapsto> PyStr ''0.0.5'']
        \<lparr>anchore = Records [''service_version'' \<mapsto> PyStr ''1.0.0'', ''db_version'' \<mapsto> PyStr ''0.0.3''],
         schema = (), trace = []\<rparr>
      = (Inr True,
         \<lparr>anchore = Records [''service_version'' \<mapsto> PyStr ''1.0.0'', ''db_version'' \<mapsto> PyStr ''0.0.3''],
          schema = (), trace = [Call ''db_upgrade_003_004'', Call ''db_upgrade_004_005'']\<rparr>)
   \<and> map fst (filter (within ''0.0.3'' ''0.0.5'')
        (upgrade_functions (module_env True (\<lambda>n (x::unit). (None, x)) (PyStr ''1.0.0'') (PyStr ''0.0.5''))))
      = [(''0.0.3'', ''0.0.4''), (''0.0.4'', ''0.0.5'')]"
proof -
  let ?env = "module_env True (\<lambda>n (x::unit). (None, x)) (PyStr ''1.0.0'') (PyStr ''0.0.5'')"
  let ?inplace = "[''service_version'' \<mapsto> PyStr ''1.0.0'', ''db_version'' \<mapsto> PyStr ''0.0.3'']"
  let ?incode = "[''service_version'' \<mapsto> PyStr ''1.0.0'', ''db_version'' \<mapsto> PyStr ''0.0.5'']"
  let ?w = "\<lparr>anchore = Records ?inplace, schema = (), trace = []\<rparr>"
  have asc: "ascending (upgrade_functions ?env)"
    by (simp add: module_env_def module_table_ascending)
  have en: "upgrade_enabled ?env"
    by (simp add: module_env_def)
  have lt: "vlt ''0.0.3'' ''0.0.5''"
    by (simp add: version_eval)
  have gf: "gap_free (upgrade_functions ?env)"
    by (simp add: module_env_def module_table_gap_free)
  have ba: "is_boundary (upgrade_functions ?env) ''0.0.3''"
    by (simp add: module_env_def module_upgrade_functions_def is_boundary_def step_from_def step_to_def version_eval)
  have bc: "is_boundary (upgrade_functions ?env) ''0.0.5''"
    by (simp add: module_env_def module_upgrade_functions_def is_boundary_def step_from_def step_to_def version_eval)
  have sel: "reached None ''0.0.3'' ''0.0.5'' (upgrade_functions ?env)
      = filter (within ''0.0.3'' ''0.0.5'') (upgrade_functions ?env)"
    and run: "do_upgrade ?env ?inplace ?incode ?w =
       (case run_functions (twisted_log ?env) (concat (map step_functions
           (reached None ''0.0.3'' ''0.0.5'' (upgrade_functions ?env)))) ?w of
          (Some e, w1) \<Rightarrow> (Inl e, w1) | (None, w1) \<Rightarrow> (Inr True, w1))"
    using do_upgrade_steps [OF asc en lt, of ?inplace ?incode "PyStr ''1.0.0''" "PyStr ''1.0.0''" ?w]
      gf ba bc by simp_all
  have flt: "filter (within ''0.0.3'' ''0.0.5'') (upgrade_functions ?env)
      = [((''0.0.3'', ''0.0.4''), [\<lparr>fn_name = ''db_upgrade_003_004'', fn_body = on_schema (\<lambda>x. (None, x))\<rparr>]),
         ((''0.0.4'', ''0.0.5''), [\<lparr>fn_name = ''db_upgrade_004_005'', fn_body = on_schema (\<lambda>x. (None, x))\<rparr>])]"
    by (simp add: module_env_def module_upgrade_functions_def within_def step_from_def step_to_def version_eval)
  have res: "do_upgrade ?env ?inplace ?incode ?w
      = (Inr True, \<lparr>anchore = Records ?inplace, schema = (),
           trace = [Call ''db_upgrade_003_004'', Call ''db_upgrade_004_005'']\<rparr>)"
    unfolding run sel flt
    by (simp add: step_functions_def emit_def module_env_def database_def with_database_def on_schema_def)
  show ?thesis
    using asc en lt gf ba bc res flt by simp
qed

text \<open>
  The claim as it is written fails on the module's own table: from \<open>0.0.0\<close> to \<open>0.0.1\<close>
  the step \<open>(0.0.1, 0.0.2)\<close> runs, although no step lies within \<open>[0.0.0, 0.0.1)\<close> and
  this one starts at the target.
\<close>

theorem do_upgrade_steps_counterexample:
  "ascending (module_upgrade_functions (\<lambda>n (x::unit). (None, x)))
   \<and> vlt ''0.0.0'' ''0.0.1''
   \<and> do_upgrade (module_env True (\<lambda>n x. (None, x)) (PyStr ''1.0.0'') (PyStr ''0.0.1''))
        [''service_version'' \<mapsto> PyStr ''1.0.0'', ''db_version'' \<mapsto> PyStr ''0.0.0'']
        [''service_version'' \<mapsto> PyStr ''1.0.0'', ''db_version'' \<mapsto> PyStr ''0.0.1'']
        \<lparr>anchore = Records [''service_version'' \<mapsto> PyStr ''1.0.0'', ''db_version'' \<mapsto> PyStr ''0.0.0''],
         schema = (), trace = []\<rparr>
      = (Inr True,
         \<lparr>anchore = Records [''service_version'' \<mapsto> PyStr ''1.0.0'', ''db_version'' \<mapsto> PyStr ''0.0.0''],
          schema = (), trace = [Call ''db_upgrade_001_002'']\<rparr>)
   \<and> filter (within ''0.0.0'' ''0.0.1'') (module_upgrade_functions (\<lambda>n (x::unit). (None, x))) = []
   \<and> vle ''0.0.1'' (step_from (hd (module_upgrade_functions (\<lambda>n (x::unit). (None, x)))))"
proof (intro conjI)
  show "ascending (module_upgrade_functions (\<lambda>n (x::unit). (None, x)))"
    by (rule module_table_ascending)
  show "vlt ''0.0.0'' ''0.0.1''"
    by (simp add: version_eval)
  show "do_upgrade (module_env True (\<lambda>n x. (None, x)) (PyStr ''1.0.0'') (PyStr ''0.0.1''))
        [''service_version'' \<mapsto> PyStr ''1.0.0'', ''db_version'' \<mapsto> PyStr ''0.0.0'']
        [''service_version'' \<mapsto> PyStr ''1.0.0'', ''db_version'' \<mapsto> PyStr ''0.0.1'']
        \<lparr>anchore = Records [''service_version'' \<mapsto> PyStr ''1.0.0'', ''db_version'' \<mapsto> PyStr ''0.0.0''],
         schema = (), trace = []\<rparr>
      = (Inr True,
         \<lparr>anchore = Records [''service_version'' \<mapsto> PyStr ''1.0.0'', ''db_version'' \<mapsto> PyStr ''0.0.0''],
          schema = (), trace = [Call ''db_upgrade_001_002'']\<rparr>)"
    by (simp add: do_upgrade_def module_env_def module_upgrade_functions_def getitem_def emit_def
        database_def with_database_def on_schema_def version_eval)
  show "filter (within ''0.0.0'' ''0.0.1'') (module_upgrade_functions (\<lambda>n (x::unit). (None, x))) = []"
    by (simp add: module_upgrade_functions_def within_def step_from_def step_to_def version_eval)
  show "vle ''0.0.1'' (step_from (hd (module_upgrade_functions (\<lambda>n (x::unit). (None, x)))))"
    by (simp add: module_upgrade_functions_def step_from_def version_eval)
qed

text \<open>
  Claim C2. Let the step table be \<open>pre @ ((db_from, db_to), fns) # post\<close>, let the loop
  arrive at the step \<open>(db_from, db_to)\<close> with the cursor \<open>cur\<close> in the state \<open>w1\<close> and
  select it (\<open>cur\<close> is below the target and \<open>db_to\<close> above \<open>cur\<close>), let the functions before
  index \<open>k\<close> of the step return, leaving the state \<open>wk\<close>, and let the function at index
  \<open>k\<close> raise \<open>e\<close>, leaving the database \<open>dk\<close>. Then the loop, \<^verbatim>\<open>do_upgrade\<close> and
  \<^verbatim>\<open>run_upgrade\<close> all raise, in the state the failing function left: the trace ends with
  the call of function \<open>k\<close> (followed by the release of the lock), so that no later function
  of the step and no function of a later step is called, and \<^verbatim>\<open>do_upgrade_success\<close> is not
  called: the version record is as the migration functions left it, which is as it was
  before the run when they leave the version table alone. The exception raised is \<open>e\<close> itself
  when \<open>e\<close> is not an \<^verbatim>\<open>Exception\<close> or \<^verbatim>\<open>log\<close> is a logger of the standard library. When
  \<^verbatim>\<open>log\<close> is the module \<^verbatim>\<open>twisted.python.log\<close>, which the module imports whenever it can,
  and \<open>e\<close> is an \<^verbatim>\<open>Exception\<close>, the handler fails at \<^verbatim>\<open>log.exception\<close> and the caller gets an
  \<^verbatim>\<open>AttributeError\<close> in the place of \<open>e\<close>.
\<close>

theorem failing_function_aborts:
  assumes table: "upgrade_functions env = pre @ ((db_from, db_to), fns) # post"
    and before: "upgrade_loop (twisted_log env) target pre current (locked w) = (Inr cur, w1)"
    and below: "compare_versions cur target = Inr c1" "c1 < 0"
    and above: "compare_versions (PyStr db_to) cur = Inr c2" "c2 > 0"
    and k: "k < length fns" "run_functions (twisted_log env) (take k fns) w1 = (None, wk)"
    and raises: "fn_body (fns ! k) (database wk) = (Some e, dk)"
    and run: "anchore w = Records d" "d ''db_version'' = Some current"
      "version_db_version env = target" "truthy target" "current \<noteq> PyNone" "current \<noteq> target"
      "upgrade_enabled env" "compare_versions current target = Inr c0" "c0 \<le> 0"
  shows "upgrade_loop (twisted_log env) target (upgrade_functions env) current (locked w)
           = (Inl (reraised (twisted_log env) e), with_database dk (emit (Call (fn_name (fns ! k))) wk))
       \<and> do_upgrade env d (code_versions_of env) (locked w)
           = (Inl (reraised (twisted_log env) e), with_database dk (emit (Call (fn_name (fns ! k))) wk))
       \<and> run_upgrade env w
           = (Inl (reraised (twisted_log env) e),
              unlocked (with_database dk (emit (Call (fn_name (fns ! k))) wk)))
       \<and> reraised (twisted_log env) e =
           (if twisted_log env \<and> isinstance_Exception e
            then Exn AttributeError ([CHR 0x27] @ ''module'' @ [CHR 0x27] @ '' object has no attribute ''
                                     @ [CHR 0x27] @ ''exception'' @ [CHR 0x27])
            else e)
       \<and> trace (snd (run_upgrade env w)) = trace wk @ [Call (fn_name (fns ! k)), LockRelease 1 1]
       \<and> (\<exists>calls. list_all is_call calls
            \<and> trace (snd (run_upgrade env w)) = trace w @ [LockAcquire 1 1] @ calls @ [LockRelease 1 1])
       \<and> database (snd (run_upgrade env w)) = dk
       \<and> ((\<forall>s\<in>set (upgrade_functions env). \<forall>f\<in>set (step_functions s). leaves_version_table f)
            \<longrightarrow> anchore (snd (run_upgrade env w)) = anchore w)"
proof -
  let ?w' = "with_database dk (emit (Call (fn_name (fns ! k))) wk)"
  let ?e = "reraised (twisted_log env) e"
  have step: "run_functions (twisted_log env) fns w1 = (Some ?e, ?w')"
    by (rule run_functions_raise_at [OF k raises])
  have "upgrade_loop (twisted_log env) target (((db_from, db_to), fns) # post) cur w1 = (Inl ?e, ?w')"
    using below above step by simp
  then have loop: "upgrade_loop (twisted_log env) target (upgrade_functions env) current (locked w)
      = (Inl ?e, ?w')"
    by (simp add: table upgrade_loop_append before)
  have sv: "\<exists>v. StrictVersion current = Inr v"
    using run(8) by (auto simp: compare_versions_def split: sum.splits)
  have du: "do_upgrade env d (code_versions_of env) (locked w) = (Inl ?e, ?w')"
    using run(2,3,6,7,8,9) sv loop
    by (auto simp: do_upgrade_def getitem_def code_versions_of_def)
  have "dict_get d ''db_version'' = current"
    using run(2) by (simp add: dict_get_def)
  then have ru: "run_upgrade env w = (Inl ?e, unlocked ?w')"
    using run_upgrade_upgrading [OF run(1), of env] run(3,4,5,6) du by auto
  have val: "?e = (if twisted_log env \<and> isinstance_Exception e
            then Exn AttributeError ([CHR 0x27] @ ''module'' @ [CHR 0x27] @ '' object has no attribute ''
                                     @ [CHR 0x27] @ ''exception'' @ [CHR 0x27])
            else e)"
    by (simp add: reraised_def log_exception_def)
  have tr: "trace (snd (run_upgrade env w)) = trace wk @ [Call (fn_name (fns ! k)), LockRelease 1 1]"
    by (simp add: ru trace_unlocked with_database_def emit_def)
  from do_upgrade_calls [OF du] obtain calls where "list_all is_call calls"
    "trace ?w' = trace (locked w) @ calls"
    by blast
  then have calls: "\<exists>calls. list_all is_call calls
            \<and> trace (snd (run_upgrade env w)) = trace w @ [LockAcquire 1 1] @ calls @ [LockRelease 1 1]"
    by (intro exI [of _ calls]) (simp add: ru trace_unlocked trace_locked)
  have db: "database (snd (run_upgrade env w)) = dk"
    by (simp add: ru database_def with_database_def unlocked_def emit_def)
  have kept: "anchore (snd (run_upgrade env w)) = anchore w"
    if "\<forall>s\<in>set (upgrade_functions env). \<forall>f\<in>set (step_functions s). leaves_version_table f"
    using do_upgrade_anchore [OF that du] by (simp add: ru)
  show ?thesis
    using loop du ru val tr calls db kept by (intro conjI impI)
qed

theorem failing_function_aborts_witness:
  "run_upgrade
      \<lparr>upgrade_enabled = True,
       upgrade_functions =
         [((''0.0.1'', ''0.0.2''),
           [\<lparr>fn_name = ''add_column'', fn_body = on_schema (\<lambda>x::nat. (None, x + 1))\<rparr>,
            \<lparr>fn_name = ''move_data'',
             fn_body = on_schema (\<lambda>x. (Some (Exn Exception ''failed to move''), x + 10))\<rparr>,
            \<lparr>fn_name = ''drop_column'', fn_body = on_schema (\<lambda>x. (None, x + 100))\<rparr>]),
          ((''0.0.2'', ''0.0.3''),
           [\<lparr>fn_name = ''add_index'', fn_body = on_schema (\<lambda>x. (None, x + 1000))\<rparr>])],
       version_version = PyStr ''1.0.0'', version_db_version = PyStr ''0.0.3'',
       twisted_log = True\<rparr>
      \<lparr>anchore = Records [''service_version'' \<mapsto> PyStr ''0.9.0'', ''db_version'' \<mapsto> PyStr ''0.0.1''],
       schema = 0, trace = []\<rparr>
    = (Inl (Exn AttributeError
              ([CHR 0x27] @ ''module'' @ [CHR 0x27] @ '' object has no attribute ''
               @ [CHR 0x27] @ ''exception'' @ [CHR 0x27])),
       \<lparr>anchore = Records [''service_version'' \<mapsto> PyStr ''0.9.0'', ''db_version'' \<mapsto> PyStr ''0.0.1''],
        schema = 11,
        trace = [LockAcquire 1 1, Call ''add_column'', Call ''move_data'', LockRelease 1 1]\<rparr>)
   \<and> run_upgrade
      \<lparr>upgrade_enabled = True,
       upgrade_functions =
         [((''0.0.1'', ''0.0.2''),
           [\<lparr>fn_name = ''add_column'', fn_body = on_schema (\<lambda>x::nat. (None, x + 1))\<rparr>,
            \<lparr>fn_name = ''move_data'',
             fn_body = on_schema (\<lambda>x. (Some (Exn Exception ''failed to move''), x + 10))\<rparr>,
            \<lparr>fn_name = ''drop_column'', fn_body = on_schema (\<lambda>x. (None, x + 100))\<rparr>]),
          ((''0.0.2'', ''0.0.3''),
           [\<lparr>fn_name = ''add_index'', fn_body = on_schema (\<lambda>x. (None, x + 1000))\<rparr>])],
       version_version = PyStr ''1.0.0'', version_db_version = PyStr ''0.0.3'',
       twisted_log = False\<rparr>
      \<lparr>anchore = Records [''service_version'' \<mapsto> PyStr ''0.9.0'', ''db_version'' \<mapsto> PyStr ''0.0.1''],
       schema = 0, trace = []\<rparr>
    = (Inl (Exn Exception ''failed to move''),
       \<lparr>anchore = Records [''service_version'' \<mapsto> PyStr ''0.9.0'', ''db_version'' \<mapsto> PyStr ''0.0.1''],
        schema = 11,
        trace = [LockAcquire 1 1, Call ''add_column'', Call ''move_data'', LockRelease 1 1]\<rparr>)"
proof -
  let ?f1 = "\<lparr>fn_name = ''add_column'', fn_body = on_schema (\<lambda>x::nat. (None, x + 1))\<rparr>"
  let ?f2 = "\<lparr>fn_name = ''move_data'',
             fn_body = on_schema (\<lambda>x::nat. (Some (Exn Exception ''failed to move''), x + 10))\<rparr>"
  let ?f3 = "\<lparr>fn_name = ''drop_column'', fn_body = on_schema (\<lambda>x::nat. (None, x + 100))\<rparr>"
  let ?g = "\<lparr>fn_name = ''add_index'', fn_body = on_schema (\<lambda>x::nat. (None, x + 1000))\<rparr>"
  let ?env = "\<lambda>tw. \<lparr>upgrade_enabled = True,
       upgrade_functions = [((''0.0.1'', ''0.0.2''), [?f1, ?f2, ?f3]), ((''0.0.2'', ''0.0.3''), [?g])],
       version_version = PyStr ''1.0.0'', version_db_version = PyStr ''0.0.3'', twisted_log = tw\<rparr>"
  let ?d = "[''service_version'' \<mapsto> PyStr ''0.9.0'', ''db_version'' \<mapsto> PyStr ''0.0.1'']"
  let ?w = "\<lparr>anchore = Records ?d, schema = 0::nat, trace = []\<rparr>"
  let ?wk = "\<lparr>anchore = Records ?d, schema = 1::nat, trace = [LockAcquire 1 1, Call ''add_column'']\<rparr>"
  have below: "compare_versions (PyStr ''0.0.1'') (PyStr ''0.0.3'') = Inr (- 1)" "(- 1 :: int) < 0"
    by (simp_all add: version_eval)
  have above: "compare_versions (PyStr ''0.0.2'') (PyStr ''0.0.1'') = Inr 1" "(1 :: int) > 0"
    by (simp_all add: version_eval)
  have raises: "fn_body ([?f1, ?f2, ?f3] ! 1) (database ?wk)
      = (Some (Exn Exception ''failed to move''), (Records ?d, 11))"
    by (simp add: database_def on_schema_def)
  have res: "run_upgrade (?env tw) ?w
      = (Inl (reraised tw (Exn Exception ''failed to move'')),
         unlocked (with_database (Records ?d, 11) (emit (Call (fn_name ([?f1, ?f2, ?f3] ! 1))) ?wk)))" for tw
  proof -
    have table: "upgrade_functions (?env tw)
        = [] @ ((''0.0.1'', ''0.0.2''), [?f1, ?f2, ?f3]) # [((''0.0.2'', ''0.0.3''), [?g])]"
      by simp
    have before: "upgrade_loop (twisted_log (?env tw)) (PyStr ''0.0.3'') [] (PyStr ''0.0.1'') (locked ?w)
        = (Inr (PyStr ''0.0.1''), locked ?w)"
      by simp
    have k: "1 < length [?f1, ?f2, ?f3]"
      "run_functions (twisted_log (?env tw)) (take 1 [?f1, ?f2, ?f3]) (locked ?w) = (None, ?wk)"
      by (simp_all add: locked_def emit_def upgrade_lock_namespace_def my_module_upgrade_id_def
          database_def with_database_def on_schema_def)
    show ?thesis
      using failing_function_aborts [OF table before below above k raises, of ?d "- 1"] below
      by simp
  qed
  show ?thesis
    using res [of True] res [of False]
    by (simp add: reraised_def log_exception_def with_database_def unlocked_def emit_def
        upgrade_lock_namespace_def my_module_upgrade_id_def)
qed

text \<open>
  Claim C3. When the running (in-place) \<^verbatim>\<open>db_version\<close> is strictly greater than the code's,
  both being valid version strings, \<^verbatim>\<open>do_upgrade\<close> raises ``DB downgrade not supported''
  and leaves the state as it was: no migration function has run and nothing was written.
  \<^verbatim>\<open>run_upgrade\<close> raises the same error, and all it has done is to take and release the lock.
\<close>

theorem downgrade_rejected:
  assumes "vlt code running"
  shows "(inplace ''db_version'' = Some (PyStr running) \<and> incode ''db_version'' = Some (PyStr code) \<longrightarrow>
            do_upgrade env inplace incode w = (Inl (Exn Exception ''DB downgrade not supported''), w))
       \<and> (anchore w = Records db_versions \<and> db_versions ''db_version'' = Some (PyStr running)
            \<and> version_db_version env = PyStr code \<longrightarrow>
            run_upgrade env w = (Inl (Exn Exception ''DB downgrade not supported''), unlocked (locked w)))"
proof -
  from assms obtain vc vr where vc: "sv_parse code = Some vc" and vr: "sv_parse running = Some vr"
    and lt: "sv_key vc < sv_key vr"
    by (auto dest!: vltD)
  have cmp: "compare_versions (PyStr running) (PyStr code) = Inr (sv_cmp vr vc)"
    by (rule compare_versions_valid [OF vr vc])
  have pos: "sv_cmp vr vc > 0"
    using lt by (simp add: sv_cmp_pos)
  have du: "do_upgrade env inplace incode w = (Inl (Exn Exception ''DB downgrade not supported''), w)"
    if "inplace ''db_version'' = Some (PyStr running)" "incode ''db_version'' = Some (PyStr code)"
    for inplace incode and w :: "'a world"
    using that pos by (simp add: do_upgrade_def getitem_def StrictVersion_valid [OF vr] cmp)
  have ne: "code \<noteq> []" "code \<noteq> running"
    using sv_parse_nonempty [OF vc] vlt_neq [OF assms] by auto
  have ru: "run_upgrade env w = (Inl (Exn Exception ''DB downgrade not supported''), unlocked (locked w))"
    if "anchore w = Records db_versions" "db_versions ''db_version'' = Some (PyStr running)"
       "version_db_version env = PyStr code"
  proof -
    have "do_upgrade env db_versions (code_versions_of env) (locked w)
            = (Inl (Exn Exception ''DB downgrade not supported''), locked w)"
      by (rule du) (simp_all add: that code_versions_of_def)
    moreover have "anchore (locked w) = Records db_versions"
      by (simp add: locked_def emit_def that)
    ultimately show ?thesis
      using that ne
      by (simp add: run_upgrade_Records [OF that(1)] run_upgrade_body_def dict_get_def code_versions_of_def)
  qed
  show ?thesis using du ru by blast
qed

theorem downgrade_rejected_witness:
  "vlt ''0.0.5'' ''0.0.6''
   \<and> do_upgrade (module_env True (\<lambda>n x. (None, x)) (PyStr ''0.10.0'') (PyStr ''0.0.5''))
        [''service_version'' \<mapsto> PyStr ''0.10.0'', ''db_version'' \<mapsto> PyStr ''0.0.6'']
        [''service_version'' \<mapsto> PyStr ''0.10.0'', ''db_version'' \<mapsto> PyStr ''0.0.5'']
        \<lparr>anchore = Records [''service_version'' \<mapsto> PyStr ''0.10.0'', ''db_version'' \<mapsto> PyStr ''0.0.6''],
         schema = (), trace = []\<rparr>
      = (Inl (Exn Exception ''DB downgrade not supported''),
         \<lparr>anchore = Records [''service_version'' \<mapsto> PyStr ''0.10.0'', ''db_version'' \<mapsto> PyStr ''0.0.6''],
          schema = (), trace = []\<rparr>)
   \<and> run_upgrade (module_env True (\<lambda>n x. (None, x)) (PyStr ''0.10.0'') (PyStr ''0.0.5''))
        \<lparr>anchore = Records [''service_version'' \<mapsto> PyStr ''0.10.0'', ''db_version'' \<mapsto> PyStr ''0.0.6''],
         schema = (), trace = []\<rparr>
      = (Inl (Exn Exception ''DB downgrade not supported''),
         \<lparr>anchore = Records [''service_version'' \<mapsto> PyStr ''0.10.0'', ''db_version'' \<mapsto> PyStr ''0.0.6''],
          schema = (), trace = [LockAcquire 1 1, LockRelease 1 1]\<rparr>)"
proof -
  have h: "vlt ''0.0.5'' ''0.0.6''"
    by code_simp
  show ?thesis
    using h downgrade_rejected [OF h,
      of "[''service_version'' \<mapsto> PyStr ''0.10.0'', ''db_version'' \<mapsto> PyStr ''0.0.6'']"
         "[''service_version'' \<mapsto> PyStr ''0.10.0'', ''db_version'' \<mapsto> PyStr ''0.0.5'']"
         "module_env True (\<lambda>n x. (None, x)) (PyStr ''0.10.0'') (PyStr ''0.0.5'')"
         "\<lparr>anchore = Records [''service_version'' \<mapsto> PyStr ''0.10.0'', ''db_version'' \<mapsto> PyStr ''0.0.6''],
          schema = (), trace = []\<rparr>"
         "[''service_version'' \<mapsto> PyStr ''0.10.0'', ''db_version'' \<mapsto> PyStr ''0.0.6'']"]
    by (simp add: module_env_def locked_def unlocked_def emit_def upgrade_lock_namespace_def
        my_module_upgrade_id_def)
qed

text \<open>
  Claim C4, on the code. When the code's \<^verbatim>\<open>db_version\<close> is a non-empty string and equals the
  running one, \<^verbatim>\<open>run_upgrade\<close> takes the lock, reads the versions and releases the lock:
  no migration function runs and the version record is not written. The function ends
  without \<^verbatim>\<open>return\<close>, so that it gives \<^verbatim>\<open>None\<close>, not the \<^verbatim>\<open>False\<close> that its docstring
  promises (``return bool. True = upgrade completed, False = no upgrade necessary'').
\<close>

theorem run_upgrade_versions_match:
  assumes "anchore w = Records d" and "d ''db_version'' = Some (version_db_version env)"
    and "truthy (version_db_version env)"
  shows "run_upgrade env w = (Inr None, unlocked (locked w))
       \<and> fst (run_upgrade env w) \<noteq> Inr (Some False)
       \<and> anchore (snd (run_upgrade env w)) = anchore w
       \<and> schema (snd (run_upgrade env w)) = schema w
       \<and> trace (snd (run_upgrade env w)) = trace w @ [LockAcquire 1 1, LockRelease 1 1]"
proof -
  have "run_upgrade_body env (code_versions_of env, d) (locked w) = (Inr None, locked w)"
    using assms(2,3) by (simp add: run_upgrade_body_def dict_get_def code_versions_of_def Let_def)
  then have "run_upgrade env w = (Inr None, unlocked (locked w))"
    by (simp add: run_upgrade_Records [OF assms(1)])
  then show ?thesis
    by (simp add: unlocked_locked)
qed

theorem run_upgrade_versions_match_witness:
  "truthy (PyStr ''0.0.6'')
   \<and> run_upgrade (module_env True (\<lambda>n (x::unit). (None, x)) (PyStr ''1.0.0'') (PyStr ''0.0.6''))
        \<lparr>anchore = Records [''service_version'' \<mapsto> PyStr ''1.0.0'', ''db_version'' \<mapsto> PyStr ''0.0.6''],
         schema = (), trace = []\<rparr>
      = (Inr None,
         \<lparr>anchore = Records [''service_version'' \<mapsto> PyStr ''1.0.0'', ''db_version'' \<mapsto> PyStr ''0.0.6''],
          schema = (), trace = [LockAcquire 1 1, LockRelease 1 1]\<rparr>)
   \<and> (Inr None :: exn + bool option) \<noteq> Inr (Some False)"
  using run_upgrade_versions_match [of
      "\<lparr>anchore = Records [''service_version'' \<mapsto> PyStr ''1.0.0'', ''db_version'' \<mapsto> PyStr ''0.0.6''],
         schema = (), trace = []\<rparr>"
      "[''service_version'' \<mapsto> PyStr ''1.0.0'', ''db_version'' \<mapsto> PyStr ''0.0.6'']"
      "module_env True (\<lambda>n (x::unit). (None, x)) (PyStr ''1.0.0'') (PyStr ''0.0.6'')"]
  by (simp add: module_env_def unlocked_locked)



text \<open>
  Claim C6, as the code has it. When the version table is missing, \<^verbatim>\<open>get_versions\<close> raises
  \<^verbatim>\<open>TableNotFoundError\<close> and \<^verbatim>\<open>run_upgrade\<close>, which has no handler for it, passes it on to
  its caller once the lock is released; nothing else has happened. \<^verbatim>\<open>run_upgrade\<close> returns
  normally without an upgrade (the value \<^verbatim>\<open>None\<close>) exactly when the table can be read, the
  code declares a \<^verbatim>\<open>db_version\<close>, and the running \<^verbatim>\<open>db_version\<close> is absent or equal to the
  code's; it has then done nothing but take and release the lock.
\<close>

theorem missing_table_raises:
  "(anchore w = NoTable \<longrightarrow>
      run_upgrade env w = (Inl (Exn TableNotFoundError ''anchore table not found''), unlocked (locked w)))
   \<and> (fst (run_upgrade env w) = Inr None \<longleftrightarrow>
        (\<exists>d. anchore w = Records d \<and> truthy (version_db_version env)
           \<and> (dict_get d ''db_version'' = PyNone \<or> version_db_version env = dict_get d ''db_version'')))
   \<and> (fst (run_upgrade env w) = Inr None \<longrightarrow> snd (run_upgrade env w) = unlocked (locked w))"
proof (intro conjI impI)
  assume "anchore w = NoTable"
  then have "get_versions env (locked w) = Inl (Exn TableNotFoundError ''anchore table not found'')"
    by (simp add: get_versions_NoTable)
  then show "run_upgrade env w = (Inl (Exn TableNotFoundError ''anchore table not found''), unlocked (locked w))"
    by (rule run_upgrade_read_fails)
next
  show "fst (run_upgrade env w) = Inr None \<longleftrightarrow>
        (\<exists>d. anchore w = Records d \<and> truthy (version_db_version env)
           \<and> (dict_get d ''db_version'' = PyNone \<or> version_db_version env = dict_get d ''db_version''))"
  proof (cases rule: run_upgrade_cases [of env w])
    case (read_fails e)
    then have "\<forall>d. anchore w \<noteq> Records d"
      by (auto simp: get_versions_Records)
    then show ?thesis
      using read_fails by simp
  next
    case (undeclared d)
    then show ?thesis
      by simp
  next
    case (nothing_to_do d)
    then show ?thesis
      by simp
  next
    case (upgrading d)
    have "fst (run_upgrade env w) \<noteq> Inr None"
      by (simp add: upgrading(5) split: prod.splits sum.splits)
    then show ?thesis
      using upgrading(1,3,4) by simp
  qed
next
  assume none: "fst (run_upgrade env w) = Inr None"
  show "snd (run_upgrade env w) = unlocked (locked w)"
  proof (cases rule: run_upgrade_cases [of env w])
    case (upgrading d)
    have "fst (run_upgrade env w) \<noteq> Inr None"
      by (simp add: upgrading(5) split: prod.splits sum.splits)
    with none show ?thesis
      by simp
  qed (use none in simp_all)
qed

theorem missing_table_raises_witness:
  "run_upgrade (module_env True (\<lambda>n (x::unit). (None, x)) (PyStr ''1.0.0'') (PyStr ''0.0.6''))
        \<lparr>anchore = NoTable, schema = (), trace = []\<rparr>
      = (Inl (Exn TableNotFoundError ''anchore table not found''),
         \<lparr>anchore = NoTable, schema = (), trace = [LockAcquire 1 1, LockRelease 1 1]\<rparr>)
   \<and> run_upgrade (module_env True (\<lambda>n (x::unit). (None, x)) (PyStr ''1.0.0'') (PyStr ''0.0.6''))
        \<lparr>anchore = Records Map.empty, schema = (), trace = []\<rparr>
      = (Inr None,
         \<lparr>anchore = Records Map.empty, schema = (), trace = [LockAcquire 1 1, LockRelease 1 1]\<rparr>)
   \<and> fst (run_upgrade (module_env True (\<lambda>n (x::unit). (None, x)) (PyStr ''1.0.0'') (PyStr ''0.0.6''))
        \<lparr>anchore = Records [''service_version'' \<mapsto> PyStr ''0.9.0'', ''db_version'' \<mapsto> PyStr ''0.0.4''],
         schema = (), trace = []\<rparr>) \<noteq> Inr None"
proof -
  let ?env = "module_env True (\<lambda>n (x::unit). (None, x)) (PyStr ''1.0.0'') (PyStr ''0.0.6'')"
  let ?d = "[''service_version'' \<mapsto> PyStr ''0.9.0'', ''db_version'' \<mapsto> PyStr ''0.0.4'']"
  have a: "run_upgrade ?env \<lparr>anchore = NoTable, schema = (), trace = []\<rparr>
      = (Inl (Exn TableNotFoundError ''anchore table not found''),
         \<lparr>anchore = NoTable, schema = (), trace = [LockAcquire 1 1, LockRelease 1 1]\<rparr>)"
    using missing_table_raises [of "\<lparr>anchore = NoTable, schema = (), trace = []\<rparr>" ?env]
    by (simp add: unlocked_locked)
  have "fst (run_upgrade ?env \<lparr>anchore = Records Map.empty, schema = (), trace = []\<rparr>) = Inr None
      \<and> snd (run_upgrade ?env \<lparr>anchore = Records Map.empty, schema = (), trace = []\<rparr>)
          = \<lparr>anchore = Records Map.empty, schema = (), trace = [LockAcquire 1 1, LockRelease 1 1]\<rparr>"
    using missing_table_raises [of "\<lparr>anchore = Records Map.empty, schema = (), trace = []\<rparr>" ?env]
    by (simp add: module_env_def unlocked_locked dict_get_def)
  then have b: "run_upgrade ?env \<lparr>anchore = Records Map.empty, schema = (), trace = []\<rparr>
      = (Inr None,
         \<lparr>anchore = Records Map.empty, schema = (), trace = [LockAcquire 1 1, LockRelease 1 1]\<rparr>)"
    by (simp add: prod_eq_iff)
  have c: "fst (run_upgrade ?env \<lparr>anchore = Records ?d, schema = (), trace = []\<rparr>) \<noteq> Inr None"
    using missing_table_raises [of "\<lparr>anchore = Records ?d, schema = (), trace = []\<rparr>" ?env]
    by (simp add: module_env_def dict_get_def)
  show ?thesis
    using a b c by (intro conjI)
qed

text \<open>The claim as it is written fails: with the table missing, \<^verbatim>\<open>run_upgrade\<close> raises.\<close>

theorem missing_table_counterexample:
  "fst (run_upgrade (module_env True (\<lambda>n (x::unit). (None, x)) (PyStr ''1.0.0'') (PyStr ''0.0.6''))
        \<lparr>anchore = NoTable, schema = (), trace = []\<rparr>)
     = Inl (Exn TableNotFoundError ''anchore table not found'')"
  by (simp add: run_upgrade_def get_versions_def db_anchore_get_def is_table_not_found_def emit_def)

text \<open>
  Claim C7, as the code has it. The check of the code's \<^verbatim>\<open>db_version\<close> stands inside the
  \<^verbatim>\<open>with upgrade_context(...)\<close> block: when the code declares none (\<^verbatim>\<open>None\<close> or the empty
  string) and the versions could be read, \<^verbatim>\<open>run_upgrade\<close> raises the configuration error
  after the lock was taken and the versions were read, releases the lock, and has run no
  migration function and written nothing.
\<close>

theorem undeclared_code_version:
  "\<not> truthy (version_db_version env) \<and> anchore w = Records d \<longrightarrow>
     run_upgrade env w =
       (Inl (Exn Exception (''cannot code version (code_db_version='' @ py_str (version_db_version env)
              @ '' running_db_version='' @ py_str (dict_get d ''db_version'') @ '')'')),
        unlocked (locked w))
     \<and> trace (snd (run_upgrade env w)) = trace w @ [LockAcquire 1 1, LockRelease 1 1]
     \<and> anchore (snd (run_upgrade env w)) = anchore w
     \<and> schema (snd (run_upgrade env w)) = schema w"
proof (intro impI)
  assume a: "\<not> truthy (version_db_version env) \<and> anchore w = Records d"
  then have "run_upgrade_body env (code_versions_of env, d) (locked w) =
       (Inl (Exn Exception (''cannot code version (code_db_version='' @ py_str (version_db_version env)
              @ '' running_db_version='' @ py_str (dict_get d ''db_version'') @ '')'')), locked w)"
    by (simp add: run_upgrade_body_def code_versions_of_def dict_get_def)
  then have "run_upgrade env w =
       (Inl (Exn Exception (''cannot code version (code_db_version='' @ py_str (version_db_version env)
              @ '' running_db_version='' @ py_str (dict_get d ''db_version'') @ '')'')),
        unlocked (locked w))"
    using a by (simp add: run_upgrade_Records)
  then show "run_upgrade env w =
       (Inl (Exn Exception (''cannot code version (code_db_version='' @ py_str (version_db_version env)
              @ '' running_db_version='' @ py_str (dict_get d ''db_version'') @ '')'')),
        unlocked (locked w))
     \<and> trace (snd (run_upgrade env w)) = trace w @ [LockAcquire 1 1, LockRelease 1 1]
     \<and> anchore (snd (run_upgrade env w)) = anchore w
     \<and> schema (snd (run_upgrade env w)) = schema w"
    by (simp add: unlocked_locked)
qed

theorem undeclared_code_version_witness:
  "\<not> truthy PyNone
   \<and> run_upgrade (module_env True (\<lambda>n (x::unit). (None, x)) (PyStr ''1.0.0'') PyNone)
        \<lparr>anchore = Records [''service_version'' \<mapsto> PyStr ''1.0.0'', ''db_version'' \<mapsto> PyStr ''0.0.6''],
         schema = (), trace = []\<rparr>
      = (Inl (Exn Exception ''cannot code version (code_db_version=None running_db_version=0.0.6)''),
         \<lparr>anchore = Records [''service_version'' \<mapsto> PyStr ''1.0.0'', ''db_version'' \<mapsto> PyStr ''0.0.6''],
          schema = (), trace = [LockAcquire 1 1, LockRelease 1 1]\<rparr>)"
  using undeclared_code_version [of "module_env True (\<lambda>n (x::unit). (None, x)) (PyStr ''1.0.0'') PyNone"
      "\<lparr>anchore = Records [''service_version'' \<mapsto> PyStr ''1.0.0'', ''db_version'' \<mapsto> PyStr ''0.0.6''],
         schema = (), trace = []\<rparr>"
      "[''service_version'' \<mapsto> PyStr ''1.0.0'', ''db_version'' \<mapsto> PyStr ''0.0.6'']"]
  by (simp add: module_env_def unlocked_locked dict_get_def)

text \<open>
  The claim as it is written fails: the error comes after the lock was acquired, as the
  trace shows.
\<close>

theorem undeclared_code_version_counterexample:
  "fst (run_upgrade (module_env True (\<lambda>n (x::unit). (None, x)) (PyStr ''1.0.0'') PyNone)
        \<lparr>anchore = Records [''service_version'' \<mapsto> PyStr ''1.0.0'', ''db_version'' \<mapsto> PyStr ''0.0.6''],
         schema = (), trace = []\<rparr>)
     = Inl (Exn Exception ''cannot code version (code_db_version=None running_db_version=0.0.6)'')
   \<and> trace (snd (run_upgrade (module_env True (\<lambda>n (x::unit). (None, x)) (PyStr ''1.0.0'') PyNone)
        \<lparr>anchore = Records [''service_version'' \<mapsto> PyStr ''1.0.0'', ''db_version'' \<mapsto> PyStr ''0.0.6''],
         schema = (), trace = []\<rparr>))
     = [LockAcquire 1 1, LockRelease 1 1]"
  by (simp add: run_upgrade_def get_versions_def db_anchore_get_def run_upgrade_body_def dict_get_def
      module_env_def emit_def upgrade_lock_namespace_def my_module_upgrade_id_def)

text \<open>
  Claim C8. Let the migration functions of the table leave the version table alone, as
  those of the module do. Then every run of \<^verbatim>\<open>run_upgrade\<close> is of one of two kinds. Either
  there is no write: the result is not \<^verbatim>\<open>True\<close>, the version record is as before, and the
  trace is the lock being taken, calls of migration functions, and the lock being released.
  Or there is exactly one write: the record was readable, some steps of the table, in the
  order of the table, were run, each of their functions was called and returned, the one
  after the other on the database the one before it left, then \<^verbatim>\<open>db_anchore.add\<close> was called
  once with the code's service version, the code's db version and the code's version
  dictionary, the lock was released, the record holds that dictionary, and the result is
  \<^verbatim>\<open>True\<close>.
\<close>

theorem version_record_written_once:
  assumes "run_upgrade env w = (r, w')"
    and "\<forall>s\<in>set (upgrade_functions env). \<forall>f\<in>set (step_functions s). leaves_version_table f"
  shows "(r \<noteq> Inr (Some True) \<and> anchore w' = anchore w
          \<and> (\<exists>calls. list_all is_call calls
                \<and> trace w' = trace w @ [LockAcquire 1 1] @ calls @ [LockRelease 1 1]))
       \<or> (r = Inr (Some True) \<and> anchore w' = Records (code_versions_of env)
          \<and> (\<exists>steps d. subseq steps (upgrade_functions env)
                \<and> anchore w = Records d
                \<and> all_return (concat (map step_functions steps)) (database w) (Records d, schema w')
                \<and> trace w' = trace w @ [LockAcquire 1 1] @ calls_of steps
                     @ [AnchoreAdd (version_version env) (version_db_version env) (code_versions_of env),
                        LockRelease 1 1]))"
proof (cases rule: run_upgrade_cases [of env w])
  case (read_fails e)
  then have "r \<noteq> Inr (Some True) \<and> anchore w' = anchore w
      \<and> list_all is_call [] \<and> trace w' = trace w @ [LockAcquire 1 1] @ [] @ [LockRelease 1 1]"
    using assms(1) by (auto simp: trace_unlocked trace_locked)
  then show ?thesis
    by blast
next
  case (undeclared d)
  then have "r \<noteq> Inr (Some True) \<and> anchore w' = anchore w
      \<and> list_all is_call [] \<and> trace w' = trace w @ [LockAcquire 1 1] @ [] @ [LockRelease 1 1]"
    using assms(1) by (auto simp: trace_unlocked trace_locked)
  then show ?thesis
    by blast
next
  case (nothing_to_do d)
  then have "r \<noteq> Inr (Some True) \<and> anchore w' = anchore w
      \<and> list_all is_call [] \<and> trace w' = trace w @ [LockAcquire 1 1] @ [] @ [LockRelease 1 1]"
    using assms(1) by (auto simp: trace_unlocked trace_locked)
  then show ?thesis
    by blast
next
  case (upgrading d)
  obtain x w1 where du: "do_upgrade env d (code_versions_of env) (locked w) = (x, w1)"
    by (cases "do_upgrade env d (code_versions_of env) (locked w)")
  from do_upgrade_anchore [OF assms(2) du] have rec: "anchore w1 = Records d"
    by (simp add: upgrading(1))
  from do_upgrade_selects [OF du] obtain steps y where steps: "subseq steps (upgrade_functions env)"
    and fns: "run_functions (twisted_log env) (concat (map step_functions steps)) (locked w) = (y, w1)"
    and ret: "\<forall>v. x = Inr v \<longrightarrow> y = None"
    by blast
  show ?thesis
  proof (cases x)
    case (Inl e)
    from run_functions_calls [OF fns] obtain calls where calls: "list_all is_call calls"
      "trace w1 = trace (locked w) @ calls"
      by blast
    have "r = Inl e" "w' = unlocked w1"
      using assms(1) by (simp_all add: upgrading(5) du Inl)
    then have "r \<noteq> Inr (Some True) \<and> anchore w' = anchore w
      \<and> list_all is_call calls \<and> trace w' = trace w @ [LockAcquire 1 1] @ calls @ [LockRelease 1 1]"
      using calls rec upgrading(1) by (simp add: trace_unlocked trace_locked)
    then show ?thesis
      by blast
  next
    case (Inr rc)
    with ret fns have "run_functions (twisted_log env) (concat (map step_functions steps)) (locked w)
        = (None, w1)"
      by simp
    then have ar: "all_return (concat (map step_functions steps)) (database (locked w)) (database w1)"
      and tr: "trace w1 = trace (locked w) @ map (\<lambda>f. Call (fn_name f)) (concat (map step_functions steps))"
      by (simp_all add: run_functions_all_return)
    have w': "r = Inr (Some True)"
      "w' = unlocked ((emit (AnchoreAdd (version_version env) (version_db_version env) (code_versions_of env)) w1)
                        \<lparr>anchore := Records (code_versions_of env)\<rparr>)"
      using assms(1) by (simp_all add: upgrading(5) du Inr do_upgrade_success_code rec)
    have sch: "schema w' = schema w1"
      by (simp add: w'(2) unlocked_def emit_def)
    have "database (locked w) = database w" "database w1 = (Records d, schema w')"
      by (simp_all add: database_def locked_def emit_def rec sch)
    with ar have ar': "all_return (concat (map step_functions steps)) (database w) (Records d, schema w')"
      by simp
    have "trace w' = trace w @ [LockAcquire 1 1] @ calls_of steps
                     @ [AnchoreAdd (version_version env) (version_db_version env) (code_versions_of env),
                        LockRelease 1 1]"
      by (simp add: w'(2) trace_unlocked emit_def tr trace_locked calls_of_def map_concat comp_def)
    with w'(1) steps ar' upgrading(1) have "r = Inr (Some True) \<and> anchore w' = Records (code_versions_of env)
          \<and> subseq steps (upgrade_functions env)
                \<and> anchore w = Records d
                \<and> all_return (concat (map step_functions steps)) (database w) (Records d, schema w')
                \<and> trace w' = trace w @ [LockAcquire 1 1] @ calls_of steps
                     @ [AnchoreAdd (version_version env) (version_db_version env) (code_versions_of env),
                        LockRelease 1 1]"
      by (simp add: w'(2))
    then show ?thesis
      by blast
  qed
qed

theorem version_record_written_once_witness:
  "run_upgrade (module_env True (\<lambda>n (x::unit). (None, x)) (PyStr ''1.0.0'') (PyStr ''0.0.6''))
        \<lparr>anchore = Records [''service_version'' \<mapsto> PyStr ''0.9.0'', ''db_version'' \<mapsto> PyStr ''0.0.4''],
         schema = (), trace = []\<rparr>
      = (Inr (Some True),
         \<lparr>anchore = Records [''service_version'' \<mapsto> PyStr ''1.0.0'', ''db_version'' \<mapsto> PyStr ''0.0.6''],
          schema = (),
          trace = [LockAcquire 1 1, Call ''db_upgrade_004_005'', Call ''db_upgrade_005_006'',
                   AnchoreAdd (PyStr ''1.0.0'') (PyStr ''0.0.6'')
                     [''service_version'' \<mapsto> PyStr ''1.0.0'', ''db_version'' \<mapsto> PyStr ''0.0.6''],
                   LockRelease 1 1]\<rparr>)
   \<and> (\<exists>steps. subseq steps (module_upgrade_functions (\<lambda>n (x::unit). (None, x)))
        \<and> all_return (concat (map step_functions steps))
            (Records [''service_version'' \<mapsto> PyStr ''0.9.0'', ''db_version'' \<mapsto> PyStr ''0.0.4''], ())
            (Records [''service_version'' \<mapsto> PyStr ''0.9.0'', ''db_version'' \<mapsto> PyStr ''0.0.4''], ())
        \<and> [LockAcquire 1 1, Call ''db_upgrade_004_005'', Call ''db_upgrade_005_006'',
            AnchoreAdd (PyStr ''1.0.0'') (PyStr ''0.0.6'')
              [''service_version'' \<mapsto> PyStr ''1.0.0'', ''db_version'' \<mapsto> PyStr ''0.0.6''],
            LockRelease 1 1]
           = [LockAcquire 1 1] @ calls_of steps
             @ [AnchoreAdd (PyStr ''1.0.0'') (PyStr ''0.0.6'')
                  [''service_version'' \<mapsto> PyStr ''1.0.0'', ''db_version'' \<mapsto> PyStr ''0.0.6''],
                LockRelease 1 1])"
proof -
  let ?env = "module_env True (\<lambda>n (x::unit). (None, x)) (PyStr ''1.0.0'') (PyStr ''0.0.6'')"
  let ?d = "[''service_version'' \<mapsto> PyStr ''0.9.0'', ''db_version'' \<mapsto> PyStr ''0.0.4'']"
  let ?w = "\<lparr>anchore = Records ?d, schema = (), trace = []\<rparr>"
  let ?w' = "\<lparr>anchore = Records [''service_version'' \<mapsto> PyStr ''1.0.0'', ''db_version'' \<mapsto> PyStr ''0.0.6''],
          schema = (),
          trace = [LockAcquire 1 1, Call ''db_upgrade_004_005'', Call ''db_upgrade_005_006'',
                   AnchoreAdd (PyStr ''1.0.0'') (PyStr ''0.0.6'')
                     [''service_version'' \<mapsto> PyStr ''1.0.0'', ''db_version'' \<mapsto> PyStr ''0.0.6''],
                   LockRelease 1 1]\<rparr>"
  have run: "run_upgrade ?env ?w = (Inr (Some True), ?w')"
    by (simp add: upgrade_eval version_eval)
  have tbl: "upgrade_functions ?env = module_upgrade_functions (\<lambda>n (x::unit). (None, x))"
    by (simp add: module_env_def)
  have lv: "\<forall>s\<in>set (upgrade_functions ?env). \<forall>f\<in>set (step_functions s). leaves_version_table f"
    unfolding tbl by (rule module_table_leaves)
  from version_record_written_once [OF run lv] obtain steps d where
    "subseq steps (upgrade_functions ?env)" "anchore ?w = Records d"
    "all_return (concat (map step_functions steps)) (database ?w) (Records d, schema ?w')"
    "trace ?w' = trace ?w @ [LockAcquire 1 1] @ calls_of steps
       @ [AnchoreAdd (version_version ?env) (version_db_version ?env) (code_versions_of ?env),
          LockRelease 1 1]"
    by auto
  then have "subseq steps (module_upgrade_functions (\<lambda>n (x::unit). (None, x)))
        \<and> all_return (concat (map step_functions steps)) (Records ?d, ()) (Records ?d, ())
        \<and> [LockAcquire 1 1, Call ''db_upgrade_004_005'', Call ''db_upgrade_005_006'',
            AnchoreAdd (PyStr ''1.0.0'') (PyStr ''0.0.6'')
              [''service_version'' \<mapsto> PyStr ''1.0.0'', ''db_version'' \<mapsto> PyStr ''0.0.6''],
            LockRelease 1 1]
           = [LockAcquire 1 1] @ calls_of steps
             @ [AnchoreAdd (PyStr ''1.0.0'') (PyStr ''0.0.6'')
                  [''service_version'' \<mapsto> PyStr ''1.0.0'', ''db_version'' \<mapsto> PyStr ''0.0.6''],
                LockRelease 1 1]"
    by (simp add: module_env_def code_versions_of_def database_def)
  then show ?thesis
    using run by blast
qed

text \<open>
  Claim C9. \<^verbatim>\<open>do_upgrade\<close> never returns \<^verbatim>\<open>False\<close>: it raises or returns \<^verbatim>\<open>True\<close>. So the
  branch of \<^verbatim>\<open>run_upgrade\<close> that raises ``Upgrade routine from module returned false'' is
  dead: the body of \<^verbatim>\<open>run_upgrade\<close> equals the same program without that branch, and
  every run of \<^verbatim>\<open>run_upgrade\<close> raises, or returns \<^verbatim>\<open>None\<close> having done nothing but take and
  release the lock, or returns \<^verbatim>\<open>True\<close> having written the code's versions.
\<close>

theorem returned_false_unreachable:
  "fst (do_upgrade env inplace incode w) \<noteq> Inr False
   \<and> run_upgrade_body env ctx w =
     (if \<not> truthy (dict_get (fst ctx) ''db_version'') then
        (Inl (Exn Exception (''cannot code version (code_db_version='' @ py_str (dict_get (fst ctx) ''db_version'')
                @ '' running_db_version='' @ py_str (dict_get (snd ctx) ''db_version'') @ '')'')), w)
      else if dict_get (snd ctx) ''db_version'' = PyNone
              \<or> dict_get (fst ctx) ''db_version'' = dict_get (snd ctx) ''db_version'' then (Inr None, w)
      else
        (case do_upgrade env (snd ctx) (fst ctx) w of
           (Inl err, w1) \<Rightarrow> (Inl err, w1)
         | (Inr rc, w1) \<Rightarrow>
             (case do_upgrade_success (snd ctx) (fst ctx) w1 of
                (Inl err, w2) \<Rightarrow> (Inl err, w2)
              | (Inr rc', w2) \<Rightarrow> (Inr (Some rc'), w2))))
   \<and> ((\<exists>e. fst (run_upgrade env w0) = Inl e)
      \<or> run_upgrade env w0 = (Inr None, unlocked (locked w0))
      \<or> (fst (run_upgrade env w0) = Inr (Some True)
          \<and> anchore (snd (run_upgrade env w0)) = Records (code_versions_of env)
          \<and> AnchoreAdd (version_version env) (version_db_version env) (code_versions_of env)
               \<in> set (trace (snd (run_upgrade env w0)))))"
proof (intro conjI)
  show "fst (do_upgrade env inplace incode w) \<noteq> Inr False"
    using do_upgrade_True [of env inplace incode w False "snd (do_upgrade env inplace incode w)"]
    by (cases "do_upgrade env inplace incode w") auto
  show "run_upgrade_body env ctx w =
     (if \<not> truthy (dict_get (fst ctx) ''db_version'') then
        (Inl (Exn Exception (''cannot code version (code_db_version='' @ py_str (dict_get (fst ctx) ''db_version'')
                @ '' running_db_version='' @ py_str (dict_get (snd ctx) ''db_version'') @ '')'')), w)
      else if dict_get (snd ctx) ''db_version'' = PyNone
              \<or> dict_get (fst ctx) ''db_version'' = dict_get (snd ctx) ''db_version'' then (Inr None, w)
      else
        (case do_upgrade env (snd ctx) (fst ctx) w of
           (Inl err, w1) \<Rightarrow> (Inl err, w1)
         | (Inr rc, w1) \<Rightarrow>
             (case do_upgrade_success (snd ctx) (fst ctx) w1 of
                (Inl err, w2) \<Rightarrow> (Inl err, w2)
              | (Inr rc', w2) \<Rightarrow> (Inr (Some rc'), w2))))"
    by (rule run_upgrade_body_cases)
  show "(\<exists>e. fst (run_upgrade env w0) = Inl e)
      \<or> run_upgrade env w0 = (Inr None, unlocked (locked w0))
      \<or> (fst (run_upgrade env w0) = Inr (Some True)
          \<and> anchore (snd (run_upgrade env w0)) = Records (code_versions_of env)
          \<and> AnchoreAdd (version_version env) (version_db_version env) (code_versions_of env)
               \<in> set (trace (snd (run_upgrade env w0))))"
  proof (cases rule: run_upgrade_cases [of env w0])
    case (upgrading d)
    obtain r w1 where du: "do_upgrade env d (code_versions_of env) (locked w0) = (r, w1)"
      by (cases "do_upgrade env d (code_versions_of env) (locked w0)")
    show ?thesis
    proof (cases r)
      case (Inl e)
      then show ?thesis
        by (simp add: upgrading(5) du)
    next
      case (Inr rc)
      then show ?thesis
        by (cases "anchore w1")
          (simp_all add: upgrading(5) du do_upgrade_success_code trace_unlocked emit_def)
    qed
  qed simp_all
qed

section \<open>Properties of the authorization wrapper\<close>

text \<open>
  Claim C10, as the code has it. For every endpoint, request and state:
  \<^item> \<^verbatim>\<open>inner_wrapper\<close> propagates no exception that is an \<^verbatim>\<open>Exception\<close>; what it lets through
    is an exception deriving from \<^verbatim>\<open>BaseException\<close> only;
  \<^item> an error response it returns has the code 403, 401 or 500, with the body
    \<^verbatim>\<open>make_response_error\<close> builds for that code;
  \<^item> a result it returns is one the endpoint returned;
  \<^item> what it returns is decided by the first stage that does not succeed. An exception \<open>e\<close>
    raised on entering the Yosai context, while the permissions are bound (the \<^verbatim>\<open>TypeError\<close>
    of \<^verbatim>\<open>join\<close>, say) or by the endpoint gives 403 with the text of \<open>e\<close> for
    \<^verbatim>\<open>UnauthorizedError\<close>, 401 for \<^verbatim>\<open>UnauthenticatedError\<close>, 500 for any other \<^verbatim>\<open>Exception\<close>,
    and is propagated when it is no \<^verbatim>\<open>Exception\<close>. A failing authentication
    (\<^verbatim>\<open>authenticate\<close> raises whatever exception, returns \<^verbatim>\<open>None\<close>, or returns an identity
    without user name) gives 401. An exception of \<^verbatim>\<open>authorize\<close> gives 403, with its own text
    for \<^verbatim>\<open>UnauthorizedError\<close> and the text of a new \<^verbatim>\<open>UnauthorizedError\<close> for any other
    \<^verbatim>\<open>Exception\<close>, and is propagated when it is no \<^verbatim>\<open>Exception\<close>. When every stage
    succeeds the wrapper returns what the endpoint returns.
\<close>

theorem inner_wrapper_responses:
  "(\<forall>e. fst (fst (inner_wrapper h ps f req kw st)) = Inl e \<longrightarrow> \<not> isinstance_Exception e)
   \<and> (\<forall>b code. fst (fst (inner_wrapper h ps f req kw st)) = Inr (ErrorResponse b code) \<longrightarrow>
          (code = 403 \<and> (\<exists>m. b = make_response_error h m 403))
        \<or> (code = 401 \<and> b = make_response_error h ''Unauthorized'' 401)
        \<or> (code = 500 \<and> b = make_response_error h ''Internal error'' 500))
   \<and> (\<forall>v. fst (fst (inner_wrapper h ps f req kw st)) = Inr (Result v) \<longrightarrow>
          (\<exists>s1 s2. f kw s1 = (Inr v, s2)))
   \<and> fst (fst (inner_wrapper h ps f req kw st)) =
       (case on_app (yosai_context_enter h) st of
          (Some e, st0) \<Rightarrow>
            (if exn_cls e = UnauthorizedError
                then Inr (ErrorResponse (make_response_error h (exn_msg e) 403) 403)
                else if exn_cls e = UnauthenticatedError
                then Inr (ErrorResponse (make_response_error h ''Unauthorized'' 401) 401)
                else if isinstance_Exception e
                then Inr (ErrorResponse (make_response_error h ''Internal error'' 500) 500)
                else Inl e)
        | (None, st0) \<Rightarrow>
            (case authenticate h req st0 of
               (Inl e, st1) \<Rightarrow> Inr (ErrorResponse (make_response_error h ''Unauthorized'' 401) 401)
             | (Inr None, st1) \<Rightarrow> Inr (ErrorResponse (make_response_error h ''Unauthorized'' 401) 401)
             | (Inr (Some i), st1) \<Rightarrow>
                 (if \<not> truthy (username i)
                  then Inr (ErrorResponse (make_response_error h ''Unauthorized'' 401) 401)
                  else
                    (case bind_permissions kw (set_identity (Some i) st1) ps of
                       (Inl e, perms) \<Rightarrow>
                         (if exn_cls e = UnauthorizedError
                then Inr (ErrorResponse (make_response_error h (exn_msg e) 403) 403)
                else if exn_cls e = UnauthenticatedError
                then Inr (ErrorResponse (make_response_error h ''Unauthorized'' 401) 401)
                else if isinstance_Exception e
                then Inr (ErrorResponse (make_response_error h ''Internal error'' 500) 500)
                else Inl e)
                     | (Inr pf, perms) \<Rightarrow>
                         (case authorize h i pf (set_identity (Some i) st1) of
                            (Some e, st3) \<Rightarrow>
                              (if exn_cls e = UnauthorizedError
                               then Inr (ErrorResponse (make_response_error h (exn_msg e) 403) 403)
                               else if isinstance_Exception e
                               then Inr (ErrorResponse
                                           (make_response_error h
                                              (''Not authorized. Requires permissions: ''
                                                 @ join_comma (case perm_texts pf of Inr ts \<Rightarrow> ts | Inl x \<Rightarrow> []))
                                              403) 403)
                               else Inl e)
                          | (None, st3) \<Rightarrow>
                              (case f kw st3 of
                                 (Inl e, st4) \<Rightarrow>
                                   (if exn_cls e = UnauthorizedError
                then Inr (ErrorResponse (make_response_error h (exn_msg e) 403) 403)
                else if exn_cls e = UnauthenticatedError
                then Inr (ErrorResponse (make_response_error h ''Unauthorized'' 401) 401)
                else if isinstance_Exception e
                then Inr (ErrorResponse (make_response_error h ''Internal error'' 500) 500)
                else Inl e)
                               | (Inr v, st4) \<Rightarrow> Inr (Result v)))))))"
proof (intro conjI allI impI)
  obtain x perms st' where block: "in_yosai_context h ps f req kw st = ((x, perms), st')"
    by (metis surj_pair)
  show "\<not> isinstance_Exception e" if "fst (fst (inner_wrapper h ps f req kw st)) = Inl e" for e
    using that block by (cases x) (auto simp: inner_wrapper_def split: if_splits)
  show "(code = 403 \<and> (\<exists>m. b = make_response_error h m 403))
        \<or> (code = 401 \<and> b = make_response_error h ''Unauthorized'' 401)
        \<or> (code = 500 \<and> b = make_response_error h ''Internal error'' 500)"
    if "fst (fst (inner_wrapper h ps f req kw st)) = Inr (ErrorResponse b code)" for b code
    using that block by (cases x) (auto simp: inner_wrapper_def split: if_splits)
  show "\<exists>s1 s2. f kw s1 = (Inr v, s2)"
    if "fst (fst (inner_wrapper h ps f req kw st)) = Inr (Result v)" for v
  proof -
    from that block have "x = Inr v"
      by (cases x) (auto simp: inner_wrapper_def split: if_splits)
    with block show ?thesis
      by (auto dest: in_yosai_context_returns)
  qed
  show "fst (fst (inner_wrapper h ps f req kw st)) =
       (case on_app (yosai_context_enter h) st of
          (Some e, st0) \<Rightarrow>
            (if exn_cls e = UnauthorizedError
                then Inr (ErrorResponse (make_response_error h (exn_msg e) 403) 403)
                else if exn_cls e = UnauthenticatedError
                then Inr (ErrorResponse (make_response_error h ''Unauthorized'' 401) 401)
                else if isinstance_Exception e
                then Inr (ErrorResponse (make_response_error h ''Internal error'' 500) 500)
                else Inl e)
        | (None, st0) \<Rightarrow>
            (case authenticate h req st0 of
               (Inl e, st1) \<Rightarrow> Inr (ErrorResponse (make_response_error h ''Unauthorized'' 401) 401)
             | (Inr None, st1) \<Rightarrow> Inr (ErrorResponse (make_response_error h ''Unauthorized'' 401) 401)
             | (Inr (Some i), st1) \<Rightarrow>
                 (if \<not> truthy (username i)
                  then Inr (ErrorResponse (make_response_error h ''Unauthorized'' 401) 401)
                  else
                    (case bind_permissions kw (set_identity (Some i) st1) ps of
                       (Inl e, perms) \<Rightarrow>
                         (if exn_cls e = UnauthorizedError
                then Inr (ErrorResponse (make_response_error h (exn_msg e) 403) 403)
                else if exn_cls e = UnauthenticatedError
                then Inr (ErrorResponse (make_response_error h ''Unauthorized'' 401) 401)
                else if isinstance_Exception e
                then Inr (ErrorResponse (make_response_error h ''Internal error'' 500) 500)
                else Inl e)
                     | (Inr pf, perms) \<Rightarrow>
                         (case authorize h i pf (set_identity (Some i) st1) of
                            (Some e, st3) \<Rightarrow>
                              (if exn_cls e = UnauthorizedError
                               then Inr (ErrorResponse (make_response_error h (exn_msg e) 403) 403)
                               else if isinstance_Exception e
                               then Inr (ErrorResponse
                                           (make_response_error h
                                              (''Not authorized. Requires permissions: ''
                                                 @ join_comma (case perm_texts pf of Inr ts \<Rightarrow> ts | Inl x \<Rightarrow> []))
                                              403) 403)
                               else Inl e)
                          | (None, st3) \<Rightarrow>
                              (case f kw st3 of
                                 (Inl e, st4) \<Rightarrow>
                                   (if exn_cls e = UnauthorizedError
                then Inr (ErrorResponse (make_response_error h (exn_msg e) 403) 403)
                else if exn_cls e = UnauthenticatedError
                then Inr (ErrorResponse (make_response_error h ''Unauthorized'' 401) 401)
                else if isinstance_Exception e
                then Inr (ErrorResponse (make_response_error h ''Internal error'' 500) 500)
                else Inl e)
                               | (Inr v, st4) \<Rightarrow> Inr (Result v)))))))"
  proof -
    obtain x0 st0 where enter: "on_app (yosai_context_enter h) st = (x0, st0)"
      by (metis surj_pair)
    show ?thesis
    proof (cases x0)
      case (Some e)
      then show ?thesis
        by (simp add: enter inner_wrapper_def in_yosai_context_def)
    next
      case None
      note entered = enter [unfolded None]
      obtain r st1 where authn: "authenticate h req st0 = (r, st1)"
        by (metis surj_pair)
      have fails: ?thesis
        if "case r of Inr (Some i) \<Rightarrow> \<not> truthy (username i) | _ \<Rightarrow> True"
      proof -
        from authenticated_fails [OF authn that]
        have "fst (fst (inner_wrapper h ps f req kw st))
            = Inr (ErrorResponse (make_response_error h ''Unauthorized'' 401) 401)"
          by (simp add: entered inner_wrapper_def in_yosai_context_def guarded_def)
        then show ?thesis
          using that by (simp add: entered authn split: sum.splits option.splits)
      qed
      show ?thesis
      proof (cases r)
        case (Inl e)
        then show ?thesis
          by (simp add: fails)
      next
        case (Inr oi)
        show ?thesis
        proof (cases oi)
          case None
          with Inr show ?thesis
            by (simp add: fails)
        next
          case (Some i)
          show ?thesis
          proof (cases "truthy (username i)")
            case False
            with Inr Some show ?thesis
              by (simp add: fails)
          next
            case True
            have ok: "authenticated h req st0 = (Inr i, st1)"
              using authn Inr Some True by (simp add: authenticated_def)
            obtain y perms1 where bound: "bind_permissions kw (set_identity (Some i) st1) ps = (y, perms1)"
              by (metis surj_pair)
            show ?thesis
            proof (cases y)
              case (Inl e)
              then show ?thesis
                using True
                by (simp add: entered authn Inr Some ok bound inner_wrapper_def in_yosai_context_def
                    guarded_def Let_def)
            next
              case pf: (Inr pf)
              from bind_permissions_texts [OF bound [unfolded pf]] obtain ts where
                ts: "perm_texts pf = Inr ts"
                by blast
              then have new: "raise_UnauthorizedError pf
                  = Exn UnauthorizedError (''Not authorized. Requires permissions: '' @ join_comma ts)"
                by (simp add: raise_UnauthorizedError_def new_UnauthorizedError_def)
              obtain z st3 where authz: "authorize h i pf (set_identity (Some i) st1) = (z, st3)"
                by (metis surj_pair)
              show ?thesis
              proof (cases z)
                case (Some e)
                then show ?thesis
                  using True
                  by (cases e) (simp add: entered authn Inr \<open>oi = Some i\<close> ok bound pf authz ts new
                      authorized_def inner_wrapper_def in_yosai_context_def guarded_def Let_def)
              next
                case None
                then have "authorized h i pf (set_identity (Some i) st1) = (None, st3)"
                  by (simp add: authorized_def authz)
                then show ?thesis
                  using True None
                  by (cases "f kw st3"; cases "fst (f kw st3)")
                    (simp_all add: entered authn Inr \<open>oi = Some i\<close> ok bound pf authz
                      inner_wrapper_def in_yosai_context_def guarded_def Let_def)
              qed
            qed
          qed
        qed
      qed
    qed
  qed
qed

theorem inner_wrapper_responses_witness:
  "fst (fst (inner_wrapper
        \<lparr>yosai_context_enter = \<lambda>a. (None, a), yosai_context_exit = \<lambda>a. a,
        get_current_subject = \<lambda>a. (None, a), subject_login = \<lambda>u p a. (None, a),
        primary_identifier = \<lambda>a. PyStr ''admin'',
        lookup_user = \<lambda>u a. (Inr (Some \<lparr>username = u, user_account = PyStr ''admin'',
                                            user_account_type = PyStr ''admin''\<rparr>), a),
        check_permission = \<lambda>ps (a::unit). (None, a),
        make_response_error = \<lambda>m c. (m, c)\<rparr>
        [Permission (Lazy (ParameterBoundValue ''account'' PyNone)) (Plain (PyStr ''listImages'')) (Plain PyNone)] (\<lambda>kw s. (Inr ''images'' :: exn + string, s)) \<lparr>authorization = None\<rparr> [(''account'', PyStr ''acme'')] \<lparr>request_identity = None, app = ()\<rparr>))
     = Inr (ErrorResponse (''Unauthorized'', 401) 401)
   \<and> fst (fst (inner_wrapper
        \<lparr>yosai_context_enter = \<lambda>a. (None, a), yosai_context_exit = \<lambda>a. a,
        get_current_subject = \<lambda>a. (None, a), subject_login = \<lambda>u p a. (None, a),
        primary_identifier = \<lambda>a. PyStr ''admin'',
        lookup_user = \<lambda>u a. (Inr (Some \<lparr>username = u, user_account = PyStr ''admin'',
                                            user_account_type = PyStr ''admin''\<rparr>), a),
        check_permission = \<lambda>ps (a::unit). (Some (Exn Exception ''backend down''), a),
        make_response_error = \<lambda>m c. (m, c)\<rparr>
        [Permission (Lazy (ParameterBoundValue ''account'' PyNone)) (Plain (PyStr ''listImages'')) (Plain PyNone)] (\<lambda>kw s. (Inr ''images'' :: exn + string, s)) \<lparr>authorization = Some (''admin'', ''secret'')\<rparr> [(''account'', PyStr ''acme'')] \<lparr>request_identity = None, app = ()\<rparr>))
     = Inr (ErrorResponse (''Not authorized. Requires permissions: domain=acme action=listImages target=*'', 403) 403)
   \<and> fst (fst (inner_wrapper
        \<lparr>yosai_context_enter = \<lambda>a. (None, a), yosai_context_exit = \<lambda>a. a,
        get_current_subject = \<lambda>a. (None, a), subject_login = \<lambda>u p a. (None, a),
        primary_identifier = \<lambda>a. PyStr ''admin'',
        lookup_user = \<lambda>u a. (Inr (Some \<lparr>username = u, user_account = PyStr ''admin'',
                                            user_account_type = PyStr ''admin''\<rparr>), a),
        check_permission = \<lambda>ps (a::unit). (Some (Exn KeyboardInterrupt []), a),
        make_response_error = \<lambda>m c. (m, c)\<rparr>
        [Permission (Lazy (ParameterBoundValue ''account'' PyNone)) (Plain (PyStr ''listImages'')) (Plain PyNone)] (\<lambda>kw s. (Inr ''images'' :: exn + string, s)) \<lparr>authorization = Some (''admin'', ''secret'')\<rparr> [(''account'', PyStr ''acme'')] \<lparr>request_identity = None, app = ()\<rparr>))
     = Inl (Exn KeyboardInterrupt [])
   \<and> fst (fst (inner_wrapper
        \<lparr>yosai_context_enter = \<lambda>a. (None, a), yosai_context_exit = \<lambda>a. a,
        get_current_subject = \<lambda>a. (None, a), subject_login = \<lambda>u p a. (None, a),
        primary_identifier = \<lambda>a. PyStr ''admin'',
        lookup_user = \<lambda>u a. (Inr (Some \<lparr>username = u, user_account = PyStr ''admin'',
                                            user_account_type = PyStr ''admin''\<rparr>), a),
        check_permission = \<lambda>ps (a::unit). (None, a),
        make_response_error = \<lambda>m c. (m, c)\<rparr>
        [Permission (Lazy (ParameterBoundValue ''account'' PyNone)) (Plain (PyStr ''listImages'')) (Plain PyNone)] (\<lambda>kw s. (Inr ''images'' :: exn + string, s)) \<lparr>authorization = Some (''admin'', ''secret'')\<rparr> [(''image'', PyStr ''alpine'')] \<lparr>request_identity = None, app = ()\<rparr>))
     = Inr (ErrorResponse (''Internal error'', 500) 500)
   \<and> fst (fst (inner_wrapper
        \<lparr>yosai_context_enter = \<lambda>a. (None, a), yosai_context_exit = \<lambda>a. a,
        get_current_subject = \<lambda>a. (None, a), subject_login = \<lambda>u p a. (None, a),
        primary_identifier = \<lambda>a. PyStr ''admin'',
        lookup_user = \<lambda>u a. (Inr (Some \<lparr>username = u, user_account = PyStr ''admin'',
                                            user_account_type = PyStr ''admin''\<rparr>), a),
        check_permission = \<lambda>ps (a::unit). (None, a),
        make_response_error = \<lambda>m c. (m, c)\<rparr>
        [Permission (Lazy (ParameterBoundValue ''account'' PyNone)) (Plain (PyStr ''listImages'')) (Plain PyNone)] (\<lambda>kw s. (Inl (Exn ValueError ''bad input'') :: exn + string, s)) \<lparr>authorization = Some (''admin'', ''secret'')\<rparr> [(''account'', PyStr ''acme'')] \<lparr>request_identity = None, app = ()\<rparr>))
     = Inr (ErrorResponse (''Internal error'', 500) 500)
   \<and> fst (fst (inner_wrapper
        \<lparr>yosai_context_enter = \<lambda>a. (None, a), yosai_context_exit = \<lambda>a. a,
        get_current_subject = \<lambda>a. (None, a), subject_login = \<lambda>u p a. (None, a),
        primary_identifier = \<lambda>a. PyStr ''admin'',
        lookup_user = \<lambda>u a. (Inr (Some \<lparr>username = u, user_account = PyStr ''admin'',
                                            user_account_type = PyStr ''admin''\<rparr>), a),
        check_permission = \<lambda>ps (a::unit). (None, a),
        make_response_error = \<lambda>m c. (m, c)\<rparr>
        [Permission (Lazy (ParameterBoundValue ''account'' PyNone)) (Plain (PyStr ''listImages'')) (Plain PyNone)] (\<lambda>kw s. (Inr ''images'' :: exn + string, s)) \<lparr>authorization = Some (''admin'', ''secret'')\<rparr> [(''account'', PyStr ''acme'')] \<lparr>request_identity = None, app = ()\<rparr>))
     = Inr (Result ''images'')"
proof -
  let ?ps = "[Permission (Lazy (ParameterBoundValue ''account'' PyNone)) (Plain (PyStr ''listImages'')) (Plain PyNone)] :: unit api_state permission list"
  let ?st = "\<lparr>request_identity = None, app = ()\<rparr>"
  note table = inner_wrapper_responses [THEN conjunct2, THEN conjunct2, THEN conjunct2]
  note stages = authenticate_def authorize_def on_app_def set_identity_def bind_permission_def
    bind_field_def join_colon_def perm_text_def
  have anon: "fst (fst (inner_wrapper
        \<lparr>yosai_context_enter = \<lambda>a. (None, a), yosai_context_exit = \<lambda>a. a,
        get_current_subject = \<lambda>a. (None, a), subject_login = \<lambda>u p a. (None, a),
        primary_identifier = \<lambda>a. PyStr ''admin'',
        lookup_user = \<lambda>u a. (Inr (Some \<lparr>username = u, user_account = PyStr ''admin'',
                                            user_account_type = PyStr ''admin''\<rparr>), a),
        check_permission = \<lambda>ps (a::unit). (None, a),
        make_response_error = \<lambda>m c. (m, c)\<rparr>
        ?ps (\<lambda>kw s. (Inr ''images'' :: exn + string, s)) \<lparr>authorization = None\<rparr> [(''account'', PyStr ''acme'')] ?st))
     = Inr (ErrorResponse (''Unauthorized'', 401) 401)"
    using table [of "\<lparr>yosai_context_enter = \<lambda>a. (None, a), yosai_context_exit = \<lambda>a. a,
        get_current_subject = \<lambda>a. (None, a), subject_login = \<lambda>u p a. (None, a),
        primary_identifier = \<lambda>a. PyStr ''admin'',
        lookup_user = \<lambda>u a. (Inr (Some \<lparr>username = u, user_account = PyStr ''admin'',
                                            user_account_type = PyStr ''admin''\<rparr>), a),
        check_permission = \<lambda>ps (a::unit). (None, a),
        make_response_error = \<lambda>m c. (m, c)\<rparr>"
        ?ps "(\<lambda>kw s. (Inr ''images'' :: exn + string, s))" "\<lparr>authorization = None\<rparr>" "[(''account'', PyStr ''acme'')]" ?st]
    by (simp add: stages)
  have down: "fst (fst (inner_wrapper
        \<lparr>yosai_context_enter = \<lambda>a. (None, a), yosai_context_exit = \<lambda>a. a,
        get_current_subject = \<lambda>a. (None, a), subject_login = \<lambda>u p a. (None, a),
        primary_identifier = \<lambda>a. PyStr ''admin'',
        lookup_user = \<lambda>u a. (Inr (Some \<lparr>username = u, user_account = PyStr ''admin'',
                                            user_account_type = PyStr ''admin''\<rparr>), a),
        check_permission = \<lambda>ps (a::unit). (Some (Exn Exception ''backend down''), a),
        make_response_error = \<lambda>m c. (m, c)\<rparr>
        ?ps (\<lambda>kw s. (Inr ''images'' :: exn + string, s)) \<lparr>authorization = Some (''admin'', ''secret'')\<rparr> [(''account'', PyStr ''acme'')] ?st))
     = Inr (ErrorResponse (''Not authorized. Requires permissions: domain=acme action=listImages target=*'', 403) 403)"
    using table [of "\<lparr>yosai_context_enter = \<lambda>a. (None, a), yosai_context_exit = \<lambda>a. a,
        get_current_subject = \<lambda>a. (None, a), subject_login = \<lambda>u p a. (None, a),
        primary_identifier = \<lambda>a. PyStr ''admin'',
        lookup_user = \<lambda>u a. (Inr (Some \<lparr>username = u, user_account = PyStr ''admin'',
                                            user_account_type = PyStr ''admin''\<rparr>), a),
        check_permission = \<lambda>ps (a::unit). (Some (Exn Exception ''backend down''), a),
        make_response_error = \<lambda>m c. (m, c)\<rparr>"
        ?ps "(\<lambda>kw s. (Inr ''images'' :: exn + string, s))" "\<lparr>authorization = Some (''admin'', ''secret'')\<rparr>" "[(''account'', PyStr ''acme'')]" ?st]
    by (simp add: stages)
  have intr: "fst (fst (inner_wrapper
        \<lparr>yosai_context_enter = \<lambda>a. (None, a), yosai_context_exit = \<lambda>a. a,
        get_current_subject = \<lambda>a. (None, a), subject_login = \<lambda>u p a. (None, a),
        primary_identifier = \<lambda>a. PyStr ''admin'',
        lookup_user = \<lambda>u a. (Inr (Some \<lparr>username = u, user_account = PyStr ''admin'',
                                            user_account_type = PyStr ''admin''\<rparr>), a),
        check_permission = \<lambda>ps (a::unit). (Some (Exn KeyboardInterrupt []), a),
        make_response_error = \<lambda>m c. (m, c)\<rparr>
        ?ps (\<lambda>kw s. (Inr ''images'' :: exn + string, s)) \<lparr>authorization = Some (''admin'', ''secret'')\<rparr> [(''account'', PyStr ''acme'')] ?st))
     = Inl (Exn KeyboardInterrupt [])"
    using table [of "\<lparr>yosai_context_enter = \<lambda>a. (None, a), yosai_context_exit = \<lambda>a. a,
        get_current_subject = \<lambda>a. (None, a), subject_login = \<lambda>u p a. (None, a),
        primary_identifier = \<lambda>a. PyStr ''admin'',
        lookup_user = \<lambda>u a. (Inr (Some \<lparr>username = u, user_account = PyStr ''admin'',
                                            user_account_type = PyStr ''admin''\<rparr>), a),
        check_permission = \<lambda>ps (a::unit). (Some (Exn KeyboardInterrupt []), a),
        make_response_error = \<lambda>m c. (m, c)\<rparr>"
        ?ps "(\<lambda>kw s. (Inr ''images'' :: exn + string, s))" "\<lparr>authorization = Some (''admin'', ''secret'')\<rparr>" "[(''account'', PyStr ''acme'')]" ?st]
    by (simp add: stages)
  have unbound: "fst (fst (inner_wrapper
        \<lparr>yosai_context_enter = \<lambda>a. (None, a), yosai_context_exit = \<lambda>a. a,
        get_current_subject = \<lambda>a. (None, a), subject_login = \<lambda>u p a. (None, a),
        primary_identifier = \<lambda>a. PyStr ''admin'',
        lookup_user = \<lambda>u a. (Inr (Some \<lparr>username = u, user_account = PyStr ''admin'',
                                            user_account_type = PyStr ''admin''\<rparr>), a),
        check_permission = \<lambda>ps (a::unit). (None, a),
        make_response_error = \<lambda>m c. (m, c)\<rparr>
        ?ps (\<lambda>kw s. (Inr ''images'' :: exn + string, s)) \<lparr>authorization = Some (''admin'', ''secret'')\<rparr> [(''image'', PyStr ''alpine'')] ?st))
     = Inr (ErrorResponse (''Internal error'', 500) 500)"
    using table [of "\<lparr>yosai_context_enter = \<lambda>a. (None, a), yosai_context_exit = \<lambda>a. a,
        get_current_subject = \<lambda>a. (None, a), subject_login = \<lambda>u p a. (None, a),
        primary_identifier = \<lambda>a. PyStr ''admin'',
        lookup_user = \<lambda>u a. (Inr (Some \<lparr>username = u, user_account = PyStr ''admin'',
                                            user_account_type = PyStr ''admin''\<rparr>), a),
        check_permission = \<lambda>ps (a::unit). (None, a),
        make_response_error = \<lambda>m c. (m, c)\<rparr>"
        ?ps "(\<lambda>kw s. (Inr ''images'' :: exn + string, s))" "\<lparr>authorization = Some (''admin'', ''secret'')\<rparr>" "[(''image'', PyStr ''alpine'')]" ?st]
    by (simp add: stages)
  have raises: "fst (fst (inner_wrapper
        \<lparr>yosai_context_enter = \<lambda>a. (None, a), yosai_context_exit = \<lambda>a. a,
        get_current_subject = \<lambda>a. (None, a), subject_login = \<lambda>u p a. (None, a),
        primary_identifier = \<lambda>a. PyStr ''admin'',
        lookup_user = \<lambda>u a. (Inr (Some \<lparr>username = u, user_account = PyStr ''admin'',
                                            user_account_type = PyStr ''admin''\<rparr>), a),
        check_permission = \<lambda>ps (a::unit). (None, a),
        make_response_error = \<lambda>m c. (m, c)\<rparr>
        ?ps (\<lambda>kw s. (Inl (Exn ValueError ''bad input'') :: exn + string, s)) \<lparr>authorization = Some (''admin'', ''secret'')\<rparr> [(''account'', PyStr ''acme'')] ?st))
     = Inr (ErrorResponse (''Internal error'', 500) 500)"
    using table [of "\<lparr>yosai_context_enter = \<lambda>a. (None, a), yosai_context_exit = \<lambda>a. a,
        get_current_subject = \<lambda>a. (None, a), subject_login = \<lambda>u p a. (None, a),
        primary_identifier = \<lambda>a. PyStr ''admin'',
        lookup_user = \<lambda>u a. (Inr (Some \<lparr>username = u, user_account = PyStr ''admin'',
                                            user_account_type = PyStr ''admin''\<rparr>), a),
        check_permission = \<lambda>ps (a::unit). (None, a),
        make_response_error = \<lambda>m c. (m, c)\<rparr>"
        ?ps "(\<lambda>kw s. (Inl (Exn ValueError ''bad input'') :: exn + string, s))" "\<lparr>authorization = Some (''admin'', ''secret'')\<rparr>" "[(''account'', PyStr ''acme'')]" ?st]
    by (simp add: stages)
  have returns: "fst (fst (inner_wrapper
        \<lparr>yosai_context_enter = \<lambda>a. (None, a), yosai_context_exit = \<lambda>a. a,
        get_current_subject = \<lambda>a. (None, a), subject_login = \<lambda>u p a. (None, a),
        primary_identifier = \<lambda>a. PyStr ''admin'',
        lookup_user = \<lambda>u a. (Inr (Some \<lparr>username = u, user_account = PyStr ''admin'',
                                            user_account_type = PyStr ''admin''\<rparr>), a),
        check_permission = \<lambda>ps (a::unit). (None, a),
        make_response_error = \<lambda>m c. (m, c)\<rparr>
        ?ps (\<lambda>kw s. (Inr ''images'' :: exn + string, s)) \<lparr>authorization = Some (''admin'', ''secret'')\<rparr> [(''account'', PyStr ''acme'')] ?st))
     = Inr (Result ''images'')"
    using table [of "\<lparr>yosai_context_enter = \<lambda>a. (None, a), yosai_context_exit = \<lambda>a. a,
        get_current_subject = \<lambda>a. (None, a), subject_login = \<lambda>u p a. (None, a),
        primary_identifier = \<lambda>a. PyStr ''admin'',
        lookup_user = \<lambda>u a. (Inr (Some \<lparr>username = u, user_account = PyStr ''admin'',
                                            user_account_type = PyStr ''admin''\<rparr>), a),
        check_permission = \<lambda>ps (a::unit). (None, a),
        make_response_error = \<lambda>m c. (m, c)\<rparr>"
        ?ps "(\<lambda>kw s. (Inr ''images'' :: exn + string, s))" "\<lparr>authorization = Some (''admin'', ''secret'')\<rparr>" "[(''account'', PyStr ''acme'')]" ?st]
    by (simp add: stages)
  show ?thesis
    using anon down intr unbound raises returns by (intro conjI)
qed

text \<open>
  The claim as it is written fails: an endpoint that raises \<^verbatim>\<open>KeyboardInterrupt\<close> has it
  propagated to the caller, since the last handler is \<^verbatim>\<open>except Exception\<close>.
\<close>

theorem inner_wrapper_responses_counterexample:
  "fst (fst (inner_wrapper
        \<lparr>yosai_context_enter = \<lambda>a. (None, a), yosai_context_exit = \<lambda>a. a,
        get_current_subject = \<lambda>a. (None, a), subject_login = \<lambda>u p a. (None, a),
        primary_identifier = \<lambda>a. PyStr ''admin'',
        lookup_user = \<lambda>u a. (Inr (Some \<lparr>username = u, user_account = PyStr ''admin'',
                                            user_account_type = PyStr ''admin''\<rparr>), a),
        check_permission = \<lambda>ps (a::unit). (None, a),
        make_response_error = \<lambda>m c. (m, c)\<rparr>
        [Permission (Lazy (ParameterBoundValue ''account'' PyNone)) (Plain (PyStr ''listImages'')) (Plain PyNone)] (\<lambda>kw s. (Inl (Exn KeyboardInterrupt []) :: exn + string, s)) \<lparr>authorization = Some (''admin'', ''secret'')\<rparr> [(''account'', PyStr ''acme'')] \<lparr>request_identity = None, app = ()\<rparr>))
     = Inl (Exn KeyboardInterrupt [])"
  by (simp add: authz_eval)

end
